theory Spec2Isabelle
  imports Main
begin

section \<open>The consulate command line: a model of \<^verbatim>\<open>consulate/cli.py\<close>\<close>

text \<open>
  The handlers of \<^verbatim>\<open>cli.py\<close> are embedded as functions from the parsed arguments and a
  world (the remote store behind the client, the transport, the files and the three
  standard streams) to an outcome and the world afterwards. An exception is a value
  \<open>Inl e\<close>; \<^verbatim>\<open>sys.exit(1)\<close> is the exception \<open>SystemExit 1\<close>, as in Python.
\<close>

subsection \<open>Python values\<close>

text \<open>
  The values that reach the handlers: \<^verbatim>\<open>None\<close>, booleans, integers, text strings
  (\<^verbatim>\<open>str\<close> in Python 3, \<^verbatim>\<open>unicode\<close> in Python 2), byte strings (\<^verbatim>\<open>bytes\<close> in
  Python 3, \<^verbatim>\<open>str\<close> in Python 2) and lists (a tuple is serialised by \<^verbatim>\<open>json\<close> as a
  list). A character of a text string is a code point below 256. Floats, dictionaries
  and code points from 256 on are outside the model: an operation that meets one
  answers \<open>OutsideModel\<close>.
\<close>

datatype pyval =
    PNone
  | PBool bool
  | PInt int
  | PStr string
  | PBytes string
  | PList "pyval list"

datatype exn =
    ConnectionError
  | SystemExit int
  | AttributeError string
  | KeyError pyval
  | IndexError
  | TypeError
  | ValueError
  | IOError
  | UnicodeDecodeError
  | RecursionError
  | OutsideModel

text \<open>Truth value testing (\<^verbatim>\<open>if x\<close>, \<^verbatim>\<open>not x\<close>).\<close>

fun py_truth :: "pyval \<Rightarrow> bool" where
  "py_truth PNone = False"
| "py_truth (PBool b) = b"
| "py_truth (PInt n) = (n \<noteq> 0)"
| "py_truth (PStr s) = (s \<noteq> [])"
| "py_truth (PBytes s) = (s \<noteq> [])"
| "py_truth (PList xs) = (xs \<noteq> [])"

text \<open>\<^verbatim>\<open>str(n)\<close> for an integer: decimal digits, a minus sign when negative.\<close>

definition digit_char :: "nat \<Rightarrow> char" where
  "digit_char d = char_of (48 + d)"

fun nat_digits :: "nat \<Rightarrow> string" where
  "nat_digits n = (if n < 10 then [digit_char n] else nat_digits (n div 10) @ [digit_char (n mod 10)])"

declare nat_digits.simps [simp del]

definition int_str :: "int \<Rightarrow> string" where
  "int_str i = (if i < 0 then CHR ''-'' # nat_digits (nat (- i)) else nat_digits (nat i))"

text \<open>
  \<^verbatim>\<open>'%s' % x\<close> and \<^verbatim>\<open>'{0}'.format(x)\<close>. The \<^verbatim>\<open>repr\<close> of a list and of a Python 3
  byte string are not modelled.
\<close>

fun py_str :: "bool \<Rightarrow> pyval \<Rightarrow> exn + string" where
  "py_str py3 PNone = Inr ''None''"
| "py_str py3 (PBool b) = Inr (if b then ''True'' else ''False'')"
| "py_str py3 (PInt n) = Inr (int_str n)"
| "py_str py3 (PStr s) = Inr s"
| "py_str py3 (PBytes s) = (if py3 then Inl OutsideModel else Inr s)"
| "py_str py3 (PList xs) = Inl OutsideModel"

text \<open>\<^verbatim>\<open>len(x)\<close>: \<^verbatim>\<open>None\<close>, booleans and integers have no length.\<close>

fun py_len :: "pyval \<Rightarrow> exn + nat" where
  "py_len (PStr s) = Inr (length s)"
| "py_len (PBytes s) = Inr (length s)"
| "py_len (PList xs) = Inr (length xs)"
| "py_len PNone = Inl TypeError"
| "py_len (PBool b) = Inl TypeError"
| "py_len (PInt n) = Inl TypeError"

text \<open>\<^verbatim>\<open>x[i]\<close> for a constant index \<open>i \<ge> 0\<close>; indexing a string gives a one-character string.\<close>

definition nth_opt :: "'a list \<Rightarrow> nat \<Rightarrow> exn + 'a" where
  "nth_opt xs i = (if i < length xs then Inr (xs ! i) else Inl IndexError)"

fun py_index :: "bool \<Rightarrow> pyval \<Rightarrow> nat \<Rightarrow> exn + pyval" where
  "py_index py3 (PList xs) i = nth_opt xs i"
| "py_index py3 (PStr s) i = map_sum id (\<lambda>c. PStr [c]) (nth_opt s i)"
| "py_index py3 (PBytes s) i =
     map_sum id (\<lambda>c. if py3 then PInt (of_char c) else PBytes [c]) (nth_opt s i)"
| "py_index py3 PNone i = Inl TypeError"
| "py_index py3 (PBool b) i = Inl TypeError"
| "py_index py3 (PInt n) i = Inl TypeError"

text \<open>\<^verbatim>\<open>x[i] = v\<close>: only a list supports item assignment.\<close>

fun py_setitem :: "pyval \<Rightarrow> nat \<Rightarrow> pyval \<Rightarrow> exn + pyval" where
  "py_setitem (PList xs) i v = (if i < length xs then Inr (PList (xs[i := v])) else Inl IndexError)"
| "py_setitem x i v = Inl TypeError"

text \<open>\<^verbatim>\<open>x[:-1]\<close>: everything but the last element; the empty sequence stays empty.\<close>

fun py_slice_butlast :: "pyval \<Rightarrow> exn + pyval" where
  "py_slice_butlast (PStr s) = Inr (PStr (butlast s))"
| "py_slice_butlast (PBytes s) = Inr (PBytes (butlast s))"
| "py_slice_butlast (PList xs) = Inr (PList (butlast xs))"
| "py_slice_butlast x = Inl TypeError"

text \<open>
  A string literal of the source (\<^verbatim>\<open>'/'\<close>) is text in Python 3 and a byte string in
  Python 2, where an ASCII byte string and a text string compare and concatenate.
  \<open>py_eq_lit x l\<close> is \<^verbatim>\<open>x == 'l'\<close>, \<open>py_add_lit x l\<close> is \<^verbatim>\<open>x + 'l'\<close>, for an ASCII literal.
\<close>

fun py_eq_lit :: "bool \<Rightarrow> pyval \<Rightarrow> string \<Rightarrow> bool" where
  "py_eq_lit py3 (PStr s) l = (s = l)"
| "py_eq_lit py3 (PBytes s) l = (\<not> py3 \<and> s = l)"
| "py_eq_lit py3 x l = False"

fun py_add_lit :: "bool \<Rightarrow> pyval \<Rightarrow> string \<Rightarrow> exn + pyval" where
  "py_add_lit py3 (PStr s) l = Inr (PStr (s @ l))"
| "py_add_lit py3 (PBytes s) l = (if py3 then Inl TypeError else Inr (PBytes (s @ l)))"
| "py_add_lit py3 x l = Inl TypeError"

text \<open>\<^verbatim>\<open>s.split(',')\<close>: the pieces between the separators, empty pieces kept.\<close>

fun split_on :: "char \<Rightarrow> string \<Rightarrow> string list" where
  "split_on c [] = [[]]"
| "split_on c (x # xs) =
     (if x = c then [] # split_on c xs
      else (case split_on c xs of p # ps \<Rightarrow> (x # p) # ps | [] \<Rightarrow> [[x]]))"

fun py_split_comma :: "bool \<Rightarrow> pyval \<Rightarrow> exn + pyval" where
  "py_split_comma py3 (PStr s) = Inr (PList (map PStr (split_on CHR '','' s)))"
| "py_split_comma py3 (PBytes s) =
     (if py3 then Inl TypeError else Inr (PList (map PBytes (split_on CHR '','' s))))"
| "py_split_comma py3 x = Inl (AttributeError ''split'')"

text \<open>
  \<^verbatim>\<open>s.encode('utf-8')\<close> on a text string whose code points are below 256: one byte
  below 128, two bytes from 128 on.
\<close>

definition utf8_char :: "char \<Rightarrow> string" where
  "utf8_char c =
     (let n = (of_char c :: nat) in
      if n < 128 then [c] else [char_of (192 + n div 64), char_of (128 + n mod 64)])"

definition utf8_encode :: "string \<Rightarrow> string" where
  "utf8_encode s = concat (map utf8_char s)"

text \<open>
  \<^verbatim>\<open>b.decode('utf-8')\<close>, as far as the result stays below code point 256; a longer
  sequence or an invalid byte is outside the model.
\<close>

fun utf8_decode :: "string \<Rightarrow> exn + string" where
  "utf8_decode [] = Inr []"
| "utf8_decode [c] = (if (of_char c :: nat) < 128 then Inr [c] else Inl OutsideModel)"
| "utf8_decode (c # d # cs) =
     (let n = (of_char c :: nat); m = (of_char d :: nat) in
      if n < 128 then map_sum id (\<lambda>r. c # r) (utf8_decode (d # cs))
      else if (n = 194 \<or> n = 195) \<and> 128 \<le> m \<and> m < 192
      then map_sum id (\<lambda>r. char_of ((n - 192) * 64 + (m - 128)) # r) (utf8_decode cs)
      else Inl OutsideModel)"

subsection \<open>The JSON codec\<close>

text \<open>
  \<^verbatim>\<open>json.dumps\<close> with its defaults (\<^verbatim>\<open>ensure_ascii\<close>, the separators \<^verbatim>\<open>', '\<close>) and
  \<^verbatim>\<open>json.load\<close>, of the Python standard library, on the values above. The encoder
  writes a string between double quotes, with the two-character escapes for the
  quote, the backslash and the control characters b, f, n, r, t, and
  \<^verbatim>\<open>\u00xx\<close> for any other character outside the printable ASCII range.
\<close>

definition dquote :: char where
  "dquote = CHR 0x22"

definition backslash :: char where
  "backslash = CHR 0x5C"

definition hex_char :: "nat \<Rightarrow> char" where
  "hex_char d = (if d < 10 then char_of (48 + d) else char_of (87 + d))"

definition json_escape_char :: "char \<Rightarrow> string" where
  "json_escape_char c =
     (let n = (of_char c :: nat) in
      if c = dquote then [backslash, dquote]
      else if c = backslash then [backslash, backslash]
      else if n = 8 then [backslash, CHR ''b'']
      else if n = 12 then [backslash, CHR ''f'']
      else if n = 10 then [backslash, CHR ''n'']
      else if n = 13 then [backslash, CHR ''r'']
      else if n = 9 then [backslash, CHR ''t'']
      else if 32 \<le> n \<and> n \<le> 126 then [c]
      else [backslash, CHR ''u'', CHR ''0'', CHR ''0'', hex_char (n div 16), hex_char (n mod 16)])"

definition json_string :: "string \<Rightarrow> string" where
  "json_string s = dquote # concat (map json_escape_char s) @ [dquote]"

fun join_comma :: "string list \<Rightarrow> string" where
  "join_comma [] = []"
| "join_comma [x] = x"
| "join_comma (x # y # ys) = x @ '', '' @ join_comma (y # ys)"

text \<open>
  A byte string is a \<^verbatim>\<open>TypeError\<close> for the encoder of Python 3; the encoder of
  Python 2 decodes it as UTF-8 first.
\<close>

fun json_dumps :: "bool \<Rightarrow> pyval \<Rightarrow> exn + string"
  and json_dumps_items :: "bool \<Rightarrow> pyval list \<Rightarrow> exn + string list" where
  "json_dumps py3 PNone = Inr ''null''"
| "json_dumps py3 (PBool b) = Inr (if b then ''true'' else ''false'')"
| "json_dumps py3 (PInt n) = Inr (int_str n)"
| "json_dumps py3 (PStr s) = Inr (json_string s)"
| "json_dumps py3 (PBytes s) =
     (if py3 then Inl TypeError
      else (case utf8_decode s of Inl e \<Rightarrow> Inl e | Inr t \<Rightarrow> Inr (json_string t)))"
| "json_dumps py3 (PList xs) =
     (case json_dumps_items py3 xs of
        Inl e \<Rightarrow> Inl e
      | Inr ss \<Rightarrow> Inr (''['' @ join_comma ss @ '']''))"
| "json_dumps_items py3 [] = Inr []"
| "json_dumps_items py3 (x # xs) =
     (case json_dumps py3 x of
        Inl e \<Rightarrow> Inl e
      | Inr s \<Rightarrow> (case json_dumps_items py3 xs of Inl e \<Rightarrow> Inl e | Inr ss \<Rightarrow> Inr (s # ss)))"

text \<open>
  The decoder. White space is space, tab, line feed and carriage return. A number is
  an optional minus sign and either \<^verbatim>\<open>0\<close> or a digit from 1 to 9 followed by digits;
  with a fraction or an exponent it is a float, outside the model, as are
  \<^verbatim>\<open>NaN\<close>, \<^verbatim>\<open>Infinity\<close> and an object.
\<close>

definition is_ws :: "char \<Rightarrow> bool" where
  "is_ws c = (c = CHR '' '' \<or> c = CHR 0x09 \<or> c = CHR 0x0A \<or> c = CHR 0x0D)"

definition skip_ws :: "string \<Rightarrow> string" where
  "skip_ws s = dropWhile is_ws s"

definition is_digit :: "char \<Rightarrow> bool" where
  "is_digit c = (48 \<le> (of_char c :: nat) \<and> (of_char c :: nat) \<le> 57)"

definition digits_nat :: "string \<Rightarrow> nat" where
  "digits_nat ds = foldl (\<lambda>a c. 10 * a + (of_char c - 48)) 0 ds"

definition hex_val :: "char \<Rightarrow> nat option" where
  "hex_val c =
     (let n = (of_char c :: nat) in
      if 48 \<le> n \<and> n \<le> 57 then Some (n - 48)
      else if 97 \<le> n \<and> n \<le> 102 then Some (n - 87)
      else if 65 \<le> n \<and> n \<le> 70 then Some (n - 55)
      else None)"

definition is_prefix :: "string \<Rightarrow> string \<Rightarrow> bool" where
  "is_prefix p s = (take (length p) s = p)"

text \<open>The two-character escapes of a JSON string.\<close>

definition json_unescape :: "char \<Rightarrow> char option" where
  "json_unescape e =
     (if e = dquote then Some dquote
      else if e = backslash then Some backslash
      else if e = CHR ''/'' then Some CHR ''/''
      else if e = CHR ''b'' then Some (CHR 0x08)
      else if e = CHR ''f'' then Some (CHR 0x0C)
      else if e = CHR ''n'' then Some (CHR 0x0A)
      else if e = CHR ''r'' then Some (CHR 0x0D)
      else if e = CHR ''t'' then Some (CHR 0x09)
      else None)"

definition cons_chars :: "char \<Rightarrow> exn + (string \<times> string) \<Rightarrow> exn + (string \<times> string)" where
  "cons_chars c r = (case r of Inl e \<Rightarrow> Inl e | Inr (s, rest) \<Rightarrow> Inr (c # s, rest))"

text \<open>
  The characters of a string after its opening quote, up to the closing quote: the
  decoded string and the text after it. A control character is refused (the decoder
  is strict), and so are an unknown escape and an unterminated string.
\<close>

fun json_chars :: "string \<Rightarrow> exn + (string \<times> string)" where
  "json_chars [] = Inl ValueError"
| "json_chars (c # cs) =
     (if c = dquote then Inr ([], cs)
      else if c = backslash then
        (case cs of
           [] \<Rightarrow> Inl ValueError
         | e # r \<Rightarrow>
             if e = CHR ''u'' then
               (case r of
                  h1 # h2 # h3 # h4 # r' \<Rightarrow>
                    (case (hex_val h1, hex_val h2, hex_val h3, hex_val h4) of
                       (Some a, Some b, Some c', Some d) \<Rightarrow>
                         if a = 0 \<and> b = 0 then cons_chars (char_of (16 * c' + d)) (json_chars r')
                         else Inl OutsideModel
                     | _ \<Rightarrow> Inl ValueError)
                | _ \<Rightarrow> Inl ValueError)
             else (case json_unescape e of
                     None \<Rightarrow> Inl ValueError
                   | Some x \<Rightarrow> cons_chars x (json_chars r)))
      else if (of_char c :: nat) < 32 then Inl ValueError
      else cons_chars c (json_chars cs))"

text \<open>A number at the head of the text.\<close>

definition json_number :: "string \<Rightarrow> exn + (pyval \<times> string)" where
  "json_number s =
     (let neg = (case s of c # _ \<Rightarrow> c = CHR ''-'' | [] \<Rightarrow> False);
          t = (if neg then tl s else s)
      in case t of
           [] \<Rightarrow> Inl ValueError
         | c # cs \<Rightarrow>
             if \<not> is_digit c then
               (if is_prefix ''NaN'' s \<or> is_prefix ''Infinity'' s \<or> is_prefix ''-Infinity'' s
                then Inl OutsideModel else Inl ValueError)
             else
               let ds = (if c = CHR ''0'' then [c] else c # takeWhile is_digit cs);
                   rest = (if c = CHR ''0'' then cs else dropWhile is_digit cs);
                   frac = (case rest of p # d # _ \<Rightarrow> p = CHR ''.'' \<and> is_digit d | _ \<Rightarrow> False);
                   ex = (case rest of
                           e # d # r \<Rightarrow>
                             (e = CHR ''e'' \<or> e = CHR ''E'') \<and>
                             (is_digit d \<or>
                              ((d = CHR ''+'' \<or> d = CHR ''-'') \<and>
                               (case r of d' # _ \<Rightarrow> is_digit d' | [] \<Rightarrow> False)))
                         | _ \<Rightarrow> False)
               in if frac \<or> ex then Inl OutsideModel
                  else Inr (PInt (if neg then - int (digits_nat ds) else int (digits_nat ds)), rest))"

text \<open>
  A value at the head of the text, and the items of an array after its opening
  bracket. The first argument bounds the depth of the recursion; \<open>json_loads\<close> gives
  it more than twice the length of the text, which no text uses up.
\<close>

fun json_value :: "nat \<Rightarrow> string \<Rightarrow> exn + (pyval \<times> string)"
  and json_items :: "nat \<Rightarrow> string \<Rightarrow> exn + (pyval list \<times> string)" where
  "json_value 0 s = Inl RecursionError"
| "json_value (Suc n) s =
     (case s of
        [] \<Rightarrow> Inl ValueError
      | c # cs \<Rightarrow>
          if c = dquote then
            (case json_chars cs of Inl e \<Rightarrow> Inl e | Inr (str, rest) \<Rightarrow> Inr (PStr str, rest))
          else if c = CHR ''{'' then Inl OutsideModel
          else if c = CHR ''['' then
            (case skip_ws cs of
               [] \<Rightarrow> Inl ValueError
             | d # ds \<Rightarrow>
                 if d = CHR '']'' then Inr (PList [], ds)
                 else (case json_items n (d # ds) of
                         Inl e \<Rightarrow> Inl e
                       | Inr (vs, rest) \<Rightarrow> Inr (PList vs, rest)))
          else if is_prefix ''null'' s then Inr (PNone, drop 4 s)
          else if is_prefix ''true'' s then Inr (PBool True, drop 4 s)
          else if is_prefix ''false'' s then Inr (PBool False, drop 5 s)
          else json_number s)"
| "json_items 0 s = Inl RecursionError"
| "json_items (Suc n) s =
     (case json_value n s of
        Inl e \<Rightarrow> Inl e
      | Inr (v, rest) \<Rightarrow>
          (case skip_ws rest of
             [] \<Rightarrow> Inl ValueError
           | d # ds \<Rightarrow>
               if d = CHR '']'' then Inr ([v], ds)
               else if d = CHR '','' then
                 (case json_items n (skip_ws ds) of
                    Inl e \<Rightarrow> Inl e
                  | Inr (vs, rest') \<Rightarrow> Inr (v # vs, rest'))
               else Inl ValueError))"

text \<open>
  \<^verbatim>\<open>json.load\<close> on the whole text of the handle: leading white space, one value,
  trailing white space, and nothing more.
\<close>

definition json_loads :: "string \<Rightarrow> exn + pyval" where
  "json_loads s =
     (case json_value (Suc (length s + length s)) (skip_ws s) of
        Inl e \<Rightarrow> Inl e
      | Inr (v, rest) \<Rightarrow> if skip_ws rest = [] then Inr v else Inl ValueError)"

subsection \<open>Parsed arguments, the world, and programs\<close>

text \<open>
  The \<^verbatim>\<open>argparse\<close> namespace: attribute names with their values. Reading an
  attribute that was never set raises \<^verbatim>\<open>AttributeError\<close>.
\<close>

type_synonym namespace = "(string \<times> pyval) list"

definition getattr :: "namespace \<Rightarrow> string \<Rightarrow> exn + pyval" where
  "getattr ns a = (case map_of ns a of None \<Rightarrow> Inl (AttributeError a) | Some v \<Rightarrow> Inr v)"

text \<open>The calls the handlers make on the client object \<^verbatim>\<open>consul\<close>.\<close>

datatype request =
    KvRecords
  | KvKeys
  | KvGet pyval
  | KvGetItem pyval
  | KvSet pyval pyval
  | KvSetItem pyval pyval
  | KvSetRecord pyval pyval pyval bool
  | KvDelete pyval pyval
  | KvDelItem pyval
  | ServiceRegister pyval pyval pyval pyval pyval pyval pyval pyval

text \<open>
  The world: the records of the remote store in its order of enumeration, as
  (path, flags, value); the number of calls the transport still answers before it
  raises \<^verbatim>\<open>ConnectionError\<close> (\<open>None\<close>: it never does); the calls made so far, each
  with whether it was answered; the files; the three standard streams.
\<close>

record world =
  store :: "(string \<times> pyval \<times> pyval) list"
  up :: "nat option"
  trace :: "(request \<times> bool) list"
  files :: "(string \<times> string) list"
  stdin :: string
  stdout :: string
  stderr :: string

type_synonym 'a prog = "world \<Rightarrow> (exn + 'a) \<times> world"

definition return :: "'a \<Rightarrow> 'a prog" where
  "return x w = (Inr x, w)"

definition lift :: "exn + 'a \<Rightarrow> 'a prog" where
  "lift r w = (r, w)"

definition bind :: "'a prog \<Rightarrow> ('a \<Rightarrow> 'b prog) \<Rightarrow> 'b prog" where
  "bind m f w = (case m w of (Inl e, w') \<Rightarrow> (Inl e, w') | (Inr x, w') \<Rightarrow> f x w')"

definition write_stdout :: "string \<Rightarrow> unit prog" where
  "write_stdout s w = (Inr (), w\<lparr>stdout := stdout w @ s\<rparr>)"

text \<open>\<^verbatim>\<open>print(s)\<close>: the text and a line feed.\<close>

definition print :: "string \<Rightarrow> unit prog" where
  "print s = write_stdout (s @ ''\<newline>'')"

subsection \<open>The client\<close>

text \<open>
  One call on the client: it is recorded, and the transport either answers it or
  raises \<^verbatim>\<open>ConnectionError\<close> (of the \<^verbatim>\<open>requests\<close> library), in which case the call has
  no effect on the store.
\<close>

definition send :: "request \<Rightarrow> unit prog" where
  "send r w =
     (case up w of
        None \<Rightarrow> (Inr (), w\<lparr>trace := trace w @ [(r, True)]\<rparr>)
      | Some 0 \<Rightarrow> (Inl ConnectionError, w\<lparr>trace := trace w @ [(r, False)]\<rparr>)
      | Some (Suc n) \<Rightarrow> (Inr (), w\<lparr>trace := trace w @ [(r, True)], up := Some n\<rparr>))"

text \<open>
  Modelled from the spec: the class \<^verbatim>\<open>consulate.Consul\<close> and its \<^verbatim>\<open>kv\<close> and
  \<^verbatim>\<open>agent.service\<close> members are not among the sources. The spec's remote collaborator
  contract: get-by-key, set-by-key (with optional "only if absent" semantics),
  delete-by-key (optionally recursive over a prefix), full-record enumeration, and an
  agent endpoint accepting a service registration. A record is (path, flags, value),
  the path is its unique key, the value may be absent. A key is a string, identified
  here with its characters; a value that is no string is not a key of the model.
\<close>

fun key_of :: "pyval \<Rightarrow> exn + string" where
  "key_of (PStr s) = Inr s"
| "key_of (PBytes s) = Inr s"
| "key_of x = Inl OutsideModel"

definition store_write ::
  "string \<Rightarrow> pyval \<Rightarrow> pyval \<Rightarrow> (string \<times> pyval \<times> pyval) list \<Rightarrow> (string \<times> pyval \<times> pyval) list" where
  "store_write p f v st =
     (if p \<in> fst ` set st then map (\<lambda>r. if fst r = p then (p, f, v) else r) st
      else st @ [(p, f, v)])"

text \<open>Modelled from the spec: \<^verbatim>\<open>consul.kv.records()\<close>, full-record enumeration.\<close>

definition client_records :: "(string \<times> pyval \<times> pyval) list prog" where
  "client_records = bind (send KvRecords) (\<lambda>_ w. (Inr (store w), w))"

text \<open>Modelled from the spec: \<^verbatim>\<open>consul.kv.keys()\<close>, "enumerates all keys".\<close>

definition client_keys :: "string list prog" where
  "client_keys = bind (send KvKeys) (\<lambda>_ w. (Inr (map fst (store w)), w))"

text \<open>
  Modelled from the spec: \<^verbatim>\<open>consul.kv.get(key)\<close>, "fetch value for key", \<^verbatim>\<open>None\<close> when
  the key or its value is absent.
\<close>

definition client_get :: "pyval \<Rightarrow> pyval prog" where
  "client_get k =
     bind (send (KvGet k)) (\<lambda>_. bind (lift (key_of k)) (\<lambda>p w.
       (Inr (case map_of (store w) p of None \<Rightarrow> PNone | Some (f, v) \<Rightarrow> v), w)))"

text \<open>
  Modelled from the spec: \<^verbatim>\<open>consul.kv[key]\<close>, the value of the record at the key, which
  may be absent (\<^verbatim>\<open>None\<close>); a path that is not in the store is a \<^verbatim>\<open>KeyError\<close>, as for
  any Python mapping.
\<close>

definition client_getitem :: "pyval \<Rightarrow> pyval prog" where
  "client_getitem k =
     bind (send (KvGetItem k)) (\<lambda>_. bind (lift (key_of k)) (\<lambda>p w.
       (case map_of (store w) p of None \<Rightarrow> (Inl (KeyError k), w) | Some (f, v) \<Rightarrow> (Inr v, w))))"

text \<open>
  Modelled from the spec: \<^verbatim>\<open>consul.kv.set(key, value)\<close> and \<^verbatim>\<open>consul.kv[key] = value\<close>,
  "writes value for key", with no flags (the empty sequence of the spec's scenario).
\<close>

definition client_set :: "pyval \<Rightarrow> pyval \<Rightarrow> unit prog" where
  "client_set k v =
     bind (send (KvSet k v)) (\<lambda>_. bind (lift (key_of k)) (\<lambda>p w.
       (Inr (), w\<lparr>store := store_write p (PList []) v (store w)\<rparr>)))"

definition client_setitem :: "pyval \<Rightarrow> pyval \<Rightarrow> unit prog" where
  "client_setitem k v =
     bind (send (KvSetItem k v)) (\<lambda>_. bind (lift (key_of k)) (\<lambda>p w.
       (Inr (), w\<lparr>store := store_write p (PList []) v (store w)\<rparr>)))"

text \<open>
  Modelled from the spec: \<^verbatim>\<open>consul.kv.set_record(path, flags, value, replace)\<close>, a write
  of (path, value) with its flags; without "replace-if-exists" the write is
  conditional: an existing key is not overwritten.
\<close>

definition store_set_record ::
  "string \<Rightarrow> pyval \<Rightarrow> pyval \<Rightarrow> bool \<Rightarrow> (string \<times> pyval \<times> pyval) list \<Rightarrow> (string \<times> pyval \<times> pyval) list" where
  "store_set_record p f v replace st =
     (if \<not> replace \<and> p \<in> fst ` set st then st else store_write p f v st)"

definition client_set_record :: "pyval \<Rightarrow> pyval \<Rightarrow> pyval \<Rightarrow> bool \<Rightarrow> unit prog" where
  "client_set_record k f v replace =
     bind (send (KvSetRecord k f v replace)) (\<lambda>_. bind (lift (key_of k)) (\<lambda>p w.
       (Inr (), w\<lparr>store := store_set_record p f v replace (store w)\<rparr>)))"

text \<open>
  Modelled from the spec: \<^verbatim>\<open>consul.kv.delete(key, recurse)\<close>, "deletes key; if recurse
  flag set, deletes every key sharing the prefix", and \<^verbatim>\<open>del consul.kv[key]\<close>.
\<close>

definition client_delete :: "pyval \<Rightarrow> pyval \<Rightarrow> unit prog" where
  "client_delete k recurse =
     bind (send (KvDelete k recurse)) (\<lambda>_. bind (lift (key_of k)) (\<lambda>p w.
       (Inr (), w\<lparr>store := filter (\<lambda>r. \<not> (fst r = p \<or> (py_truth recurse \<and> is_prefix p (fst r))))
                               (store w)\<rparr>)))"

definition client_delitem :: "pyval \<Rightarrow> unit prog" where
  "client_delitem k =
     bind (send (KvDelItem k)) (\<lambda>_. bind (lift (key_of k)) (\<lambda>p w.
       (Inr (), w\<lparr>store := filter (\<lambda>r. fst r \<noteq> p) (store w)\<rparr>)))"

text \<open>
  Modelled from the spec: \<^verbatim>\<open>consul.agent.service.register(...)\<close>, "issue one
  registration call to the store's agent API"; the registry itself is not modelled.
\<close>

definition client_register ::
  "pyval \<Rightarrow> pyval \<Rightarrow> pyval \<Rightarrow> pyval \<Rightarrow> pyval \<Rightarrow> pyval \<Rightarrow> pyval \<Rightarrow> pyval \<Rightarrow> unit prog" where
  "client_register name service_id address port tags check interval ttl =
     send (ServiceRegister name service_id address port tags check interval ttl)"

subsection \<open>The handlers\<close>

text \<open>
  \<^verbatim>\<open>connection_error()\<close>: one line on the error stream, then \<^verbatim>\<open>sys.exit(1)\<close>.
\<close>

definition connection_error :: "unit prog" where
  "connection_error w =
     (Inl (SystemExit 1), w\<lparr>stderr := stderr w @ ''ERROR: Could not connect to consul\<newline>''\<rparr>)"

text \<open>\<^verbatim>\<open>try: body  except exceptions.ConnectionError: connection_error()\<close>\<close>

definition except_connection :: "unit prog \<Rightarrow> unit prog" where
  "except_connection body w =
     (case body w of (r, w') \<Rightarrow> if r = Inl ConnectionError then connection_error w' else (r, w'))"

text \<open>
  \<^verbatim>\<open>open(args.file, 'w') if args.file else sys.stdout\<close>: opening for writing empties
  the file. The name of a file is a string; opening is taken to succeed.
\<close>

datatype handle = Stdout | File string

definition file_put :: "string \<Rightarrow> string \<Rightarrow> (string \<times> string) list \<Rightarrow> (string \<times> string) list" where
  "file_put name text fs = (name, text) # filter (\<lambda>f. fst f \<noteq> name) fs"

definition open_write :: "pyval \<Rightarrow> handle prog" where
  "open_write file =
     (if py_truth file then
        bind (lift (key_of file)) (\<lambda>name w. (Inr (File name), w\<lparr>files := file_put name [] (files w)\<rparr>))
      else return Stdout)"

definition file_text :: "(string \<times> string) list \<Rightarrow> string \<Rightarrow> string" where
  "file_text fs name = (case map_of fs name of None \<Rightarrow> [] | Some text \<Rightarrow> text)"

fun handle_write :: "handle \<Rightarrow> string \<Rightarrow> unit prog" where
  "handle_write Stdout s w = write_stdout s w"
| "handle_write (File name) s w =
     (Inr (), w\<lparr>files := file_put name (file_text (files w) name @ s) (files w)\<rparr>)"

text \<open>
  \<^verbatim>\<open>open(args.file, 'r') if args.file else sys.stdin\<close>, and the whole text of the handle,
  which \<^verbatim>\<open>json.load\<close> reads at once. A file that does not exist is an \<^verbatim>\<open>IOError\<close>.
\<close>

definition read_all :: "pyval \<Rightarrow> string prog" where
  "read_all file =
     (if py_truth file then
        bind (lift (key_of file)) (\<lambda>name w.
          (case map_of (files w) name of None \<Rightarrow> (Inl IOError, w) | Some text \<Rightarrow> (Inr text, w)))
      else (\<lambda>w. (Inr (stdin w), w)))"

text \<open>The records as \<^verbatim>\<open>json.dumps\<close> sees them: a list of 3-tuples.\<close>

definition row_of :: "string \<times> pyval \<times> pyval \<Rightarrow> pyval" where
  "row_of r = (case r of (p, f, v) \<Rightarrow> PList [PStr p, f, v])"

definition records_value :: "(string \<times> pyval \<times> pyval) list \<Rightarrow> pyval" where
  "records_value recs = PList (map row_of recs)"

definition kv_backup :: "bool \<Rightarrow> namespace \<Rightarrow> unit prog" where
  "kv_backup py3 args =
     bind (lift (getattr args ''file'')) (\<lambda>file.
     bind (open_write file) (\<lambda>handle.
     except_connection
       (bind client_records (\<lambda>recs.
        bind (lift (json_dumps py3 (records_value recs))) (\<lambda>s.
        handle_write handle (s @ ''\<newline>''))))))"

definition kv_delete :: "namespace \<Rightarrow> unit prog" where
  "kv_delete args =
     except_connection (bind (lift (getattr args ''key'')) (\<lambda>key. client_delitem key))"

definition kv_get :: "bool \<Rightarrow> namespace \<Rightarrow> unit prog" where
  "kv_get py3 args =
     except_connection
       (bind (lift (getattr args ''key'')) (\<lambda>key.
        bind (client_get key) (\<lambda>v.
        bind (lift (py_str py3 v)) (\<lambda>s.
        write_stdout (s @ ''\<newline>'')))))"

text \<open>\<^verbatim>\<open>'{0:>14}'.format(n)\<close>: padded with spaces on the left up to 14 characters.\<close>

definition rjust :: "nat \<Rightarrow> string \<Rightarrow> string" where
  "rjust width s = replicate (width - length s) CHR '' '' @ s"

definition ls_line :: "bool \<Rightarrow> namespace \<Rightarrow> string \<Rightarrow> unit prog" where
  "ls_line py3 args key =
     bind (lift (getattr args ''long'')) (\<lambda>long.
       if py_truth long then
         bind (client_getitem (PStr key)) (\<lambda>v.
         bind (lift (py_len v)) (\<lambda>n.
         print (rjust 14 (nat_digits n) @ '' '' @ key)))
       else print key)"

fun ls_loop :: "bool \<Rightarrow> namespace \<Rightarrow> string list \<Rightarrow> unit prog" where
  "ls_loop py3 args [] w = (Inr (), w)"
| "ls_loop py3 args (key # keys) w =
     (case ls_line py3 args key w of
        (Inl e, w') \<Rightarrow> (Inl e, w')
      | (Inr u, w') \<Rightarrow> ls_loop py3 args keys w')"

definition kv_ls :: "bool \<Rightarrow> namespace \<Rightarrow> unit prog" where
  "kv_ls py3 args =
     except_connection (bind client_keys (\<lambda>keys. ls_loop py3 args keys))"

definition kv_mkdir :: "bool \<Rightarrow> namespace \<Rightarrow> unit prog" where
  "kv_mkdir py3 args =
     bind (lift (getattr args ''path'')) (\<lambda>path.
     bind (lift (py_slice_butlast path)) (\<lambda>front.
     bind (if \<not> py_eq_lit py3 front ''/'' then lift (py_add_lit py3 path ''/'') else return path)
       (\<lambda>path'.
     except_connection (client_set path' PNone))))"

text \<open>\<^verbatim>\<open>for row in data\<close>: the elements of a list, the characters of a string.\<close>

fun py_iter :: "bool \<Rightarrow> pyval \<Rightarrow> exn + pyval list" where
  "py_iter py3 (PList xs) = Inr xs"
| "py_iter py3 (PStr s) = Inr (map (\<lambda>c. PStr [c]) s)"
| "py_iter py3 (PBytes s) = Inr (map (\<lambda>c. if py3 then PInt (of_char c) else PBytes [c]) s)"
| "py_iter py3 x = Inl TypeError"

text \<open>
  One turn of the loop of \<^verbatim>\<open>kv_restore\<close>. \<open>py3\<close> is \<^verbatim>\<open>utils.PYTHON3\<close>, a constant of a
  module that is not among the sources. With Python 2 a text value is first replaced
  by its UTF-8 bytes; \<^verbatim>\<open>and\<close> does not look at \<^verbatim>\<open>row[2]\<close> with Python 3.
\<close>

definition restore_row :: "bool \<Rightarrow> namespace \<Rightarrow> pyval \<Rightarrow> unit prog" where
  "restore_row py3 args row =
     bind (if \<not> py3 then
             bind (lift (py_index py3 row 2)) (\<lambda>v.
               case v of PStr s \<Rightarrow> lift (py_setitem row 2 (PBytes (utf8_encode s)))
                       | _ \<Rightarrow> return row)
           else return row) (\<lambda>row'.
     except_connection
       (bind (lift (py_index py3 row' 0)) (\<lambda>path.
        bind (lift (py_index py3 row' 1)) (\<lambda>flags.
        bind (lift (py_index py3 row' 2)) (\<lambda>v.
        bind (lift (getattr args ''no_replace'')) (\<lambda>no_replace.
        client_set_record path flags v (\<not> py_truth no_replace)))))))"

fun restore_loop :: "bool \<Rightarrow> namespace \<Rightarrow> pyval list \<Rightarrow> unit prog" where
  "restore_loop py3 args [] w = (Inr (), w)"
| "restore_loop py3 args (row # rows) w =
     (case restore_row py3 args row w of
        (Inl e, w') \<Rightarrow> (Inl e, w')
      | (Inr u, w') \<Rightarrow> restore_loop py3 args rows w')"

definition kv_restore :: "bool \<Rightarrow> namespace \<Rightarrow> unit prog" where
  "kv_restore py3 args =
     bind (lift (getattr args ''file'')) (\<lambda>file.
     bind (read_all file) (\<lambda>text.
     bind (lift (json_loads text)) (\<lambda>data.
     bind (lift (py_iter py3 data)) (\<lambda>rows.
     restore_loop py3 args rows))))"

definition kv_rm :: "namespace \<Rightarrow> unit prog" where
  "kv_rm args =
     except_connection
       (bind (lift (getattr args ''key'')) (\<lambda>key.
        bind (lift (getattr args ''recurse'')) (\<lambda>recurse.
        client_delete key recurse)))"

definition kv_set :: "namespace \<Rightarrow> unit prog" where
  "kv_set args =
     except_connection
       (bind (lift (getattr args ''key'')) (\<lambda>key.
        bind (lift (getattr args ''value'')) (\<lambda>v.
        client_setitem key v)))"

text \<open>
  \<^verbatim>\<open>'%ss' % x\<close>: the text of \<open>x\<close> and the letter s. The result is text with Python 3,
  and with Python 2 when \<open>x\<close> is text; otherwise it is a Python 2 byte string.
\<close>

definition percent_s_s :: "bool \<Rightarrow> pyval \<Rightarrow> exn + pyval" where
  "percent_s_s py3 x =
     (case py_str py3 x of
        Inl e \<Rightarrow> Inl e
      | Inr s \<Rightarrow> Inr (if py3 \<or> (case x of PStr _ \<Rightarrow> True | _ \<Rightarrow> False)
                      then PStr (s @ ''s'') else PBytes (s @ ''s'')))"

definition register :: "bool \<Rightarrow> namespace \<Rightarrow> unit prog" where
  "register py3 args =
     bind (lift (getattr args ''ctype'')) (\<lambda>ctype.
     bind (if py_eq_lit py3 ctype ''check'' then lift (getattr args ''path'') else return PNone)
       (\<lambda>check.
     bind (if py_eq_lit py3 ctype ''check''
           then bind (lift (getattr args ''interval'')) (\<lambda>i. lift (percent_s_s py3 i))
           else return PNone) (\<lambda>interval.
     bind (if py_eq_lit py3 ctype ''ttl''
           then bind (lift (getattr args ''duration'')) (\<lambda>d. lift (percent_s_s py3 d))
           else return PNone) (\<lambda>ttl.
     bind (lift (getattr args ''tags'')) (\<lambda>t.
     bind (if py_truth t then lift (py_split_comma py3 t) else return PNone) (\<lambda>tags.
     except_connection
       (bind (lift (getattr args ''name'')) (\<lambda>name.
        bind (lift (getattr args ''service_id'')) (\<lambda>service_id.
        bind (lift (getattr args ''address'')) (\<lambda>address.
        bind (lift (getattr args ''port'')) (\<lambda>port.
        client_register name service_id address port tags check interval ttl)))))))))))"

subsection \<open>The argument parser and the entry point\<close>

text \<open>
  A call of \<^verbatim>\<open>add_argument\<close>: its option strings (or the name of a positional
  argument) and the \<^verbatim>\<open>dest\<close> keyword when there is one. \<^verbatim>\<open>argparse\<close> names the attribute
  of an option after its first long option string, without the leading dashes and with
  every other dash turned into an underscore; a positional argument keeps its name.
\<close>

type_synonym argdecl = "string list \<times> string option"

definition option_dest :: "string \<Rightarrow> string" where
  "option_dest opt =
     map (\<lambda>c. if c = CHR ''-'' then CHR ''_'' else c) (dropWhile (\<lambda>c. c = CHR ''-'') opt)"

definition dest_of :: "argdecl \<Rightarrow> string" where
  "dest_of d =
     (case snd d of
        Some name \<Rightarrow> name
      | None \<Rightarrow>
          (case filter (is_prefix ''--'') (fst d) of
             long # _ \<Rightarrow> option_dest long
           | [] \<Rightarrow>
               (case fst d of
                  [] \<Rightarrow> []
                | f # _ \<Rightarrow> if is_prefix ''-'' f then option_dest f else f)))"

text \<open>The arguments of the top-level parser, in \<^verbatim>\<open>parse_cli_args\<close>.\<close>

definition TOP_ARGS :: "argdecl list" where
  "TOP_ARGS =
     [([''--api-scheme''], None),
      ([''--api-host''], None),
      ([''--api-port''], None),
      ([''--datacenter''], Some ''dc''),
      ([''--token''], None)]"

text \<open>\<^verbatim>\<open>KV_PARSERS\<close>: the name of each kv subcommand and its arguments.\<close>

definition KV_PARSERS :: "(string \<times> argdecl list) list" where
  "KV_PARSERS =
     [(''backup'', [([''-f'', ''--file''], None)]),
      (''restore'', [([''-f'', ''--file''], None), ([''-n'', ''--no-replace''], None)]),
      (''ls'', [([''-l'', ''--long''], None)]),
      (''mkdir'', [([''path''], None)]),
      (''get'', [([''key''], None)]),
      (''set'', [([''key''], None), ([''value''], None)]),
      (''rm'', [([''key''], None), ([''-r'', ''--recurse''], None)])]"

text \<open>\<^verbatim>\<open>add_register_args\<close>: the arguments of \<^verbatim>\<open>register\<close> and of its three subcommands.\<close>

definition REGISTER_ARGS :: "argdecl list" where
  "REGISTER_ARGS =
     [([''name''], None),
      ([''-a'', ''--address''], None),
      ([''-p'', ''--port''], None),
      ([''-s'', ''--service-id''], None),
      ([''-t'', ''--tags''], None)]"

definition REGISTER_PARSERS :: "(string \<times> argdecl list) list" where
  "REGISTER_PARSERS =
     [(''check'', [([''interval''], None), ([''path''], None)]),
      (''no-check'', []),
      (''ttl'', [([''duration''], None)])]"

text \<open>
  Every attribute that the parser built by \<^verbatim>\<open>parse_cli_args\<close> can set on its result:
  the destinations of the arguments of the top-level parser and of all the subparsers,
  and the destinations \<^verbatim>\<open>command\<close>, \<^verbatim>\<open>ctype\<close> and \<^verbatim>\<open>action\<close> of the three
  \<^verbatim>\<open>add_subparsers\<close> calls.
\<close>

definition parser_dests :: "string list" where
  "parser_dests =
     map dest_of TOP_ARGS @ [''command''] @
     map dest_of REGISTER_ARGS @ [''ctype''] @
     concat (map (\<lambda>p. map dest_of (snd p)) REGISTER_PARSERS) @ [''action''] @
     concat (map (\<lambda>p. map dest_of (snd p)) KV_PARSERS)"

text \<open>A namespace that \<^verbatim>\<open>parse_cli_args\<close> can return has no other attribute.\<close>

definition parsed :: "namespace \<Rightarrow> bool" where
  "parsed args = list_all (\<lambda>a. a \<in> set parser_dests) (map fst args)"

text \<open>
  A string of the source or of the command line in the running Python: text with
  Python 3, a byte string with Python 2.
\<close>

definition native_str :: "bool \<Rightarrow> string \<Rightarrow> pyval" where
  "native_str py3 s = (if py3 then PStr s else PBytes s)"



definition KV_ACTIONS :: "bool \<Rightarrow> (string \<times> (namespace \<Rightarrow> unit prog)) list" where
  "KV_ACTIONS py3 =
     [(''backup'', kv_backup py3),
      (''del'', kv_delete),
      (''get'', kv_get py3),
      (''ls'', kv_ls py3),
      (''mkdir'', kv_mkdir py3),
      (''restore'', kv_restore py3),
      (''rm'', kv_rm),
      (''set'', kv_set)]"

text \<open>\<^verbatim>\<open>KV_ACTIONS[args.action]\<close>: a missing key is a \<^verbatim>\<open>KeyError\<close>, a list cannot be a key.\<close>

fun kv_actions_lookup :: "bool \<Rightarrow> pyval \<Rightarrow> exn + (namespace \<Rightarrow> unit prog)" where
  "kv_actions_lookup py3 (PStr s) =
     (case map_of (KV_ACTIONS py3) s of None \<Rightarrow> Inl (KeyError (PStr s)) | Some h \<Rightarrow> Inr h)"
| "kv_actions_lookup py3 (PBytes s) =
     (if py3 then Inl (KeyError (PBytes s))
      else (case map_of (KV_ACTIONS py3) s of None \<Rightarrow> Inl (KeyError (PBytes s)) | Some h \<Rightarrow> Inr h))"
| "kv_actions_lookup py3 (PList xs) = Inl TypeError"
| "kv_actions_lookup py3 x = Inl (KeyError x)"

text \<open>
  \<^verbatim>\<open>main\<close>, after \<^verbatim>\<open>args = parse_cli_args()\<close>. Choosing the adapter and building the client
  read the attributes in the order of the source; the constructor \<^verbatim>\<open>consulate.Consul\<close>
  is taken to return without touching the world.
\<close>

definition main :: "bool \<Rightarrow> namespace \<Rightarrow> unit prog" where
  "main py3 args =
     bind (lift (getattr args ''scheme'')) (\<lambda>scheme.
     bind (lift (getattr args ''api_host'')) (\<lambda>api_host.
     bind (lift (getattr args ''api_port'')) (\<lambda>api_port.
     bind (lift (getattr args ''dc'')) (\<lambda>dc.
     bind (lift (getattr args ''token'')) (\<lambda>token.
     bind (lift (getattr args ''scheme'')) (\<lambda>scheme'.
     bind (lift (getattr args ''command'')) (\<lambda>command.
       if py_eq_lit py3 command ''register'' then register py3 args
       else if py_eq_lit py3 command ''kv'' then
         bind (lift (getattr args ''action'')) (\<lambda>action.
         bind (lift (kv_actions_lookup py3 action)) (\<lambda>handler.
         handler args))
       else return ())))))))"

subsection \<open>Sample inputs\<close>

text \<open>An empty store behind a transport that never fails, no file, empty streams.\<close>

definition world0 :: world where
  "world0 = \<lparr>store = [], up = None, trace = [], files = [], stdin = [], stdout = [], stderr = []\<rparr>"

text \<open>The result of parsing \<^verbatim>\<open>consulate kv get a\<close>.\<close>

definition args_kv_get :: namespace where
  "args_kv_get =
     [(''api_scheme'', PStr ''http''), (''api_host'', PStr ''localhost''), (''api_port'', PInt 8500),
      (''dc'', PNone), (''token'', PNone), (''command'', PStr ''kv''), (''action'', PStr ''get''),
      (''key'', PStr ''a'')]"

text \<open>The result of parsing \<^verbatim>\<open>consulate kv\<close>, without a subcommand, with Python 3.\<close>

definition args_kv :: namespace where
  "args_kv =
     [(''api_scheme'', PStr ''http''), (''api_host'', PStr ''localhost''), (''api_port'', PInt 8500),
      (''dc'', PNone), (''token'', PNone), (''command'', PStr ''kv''), (''action'', PNone)]"

text \<open>
  The result of parsing \<^verbatim>\<open>consulate register web -p 80 c ...\<close> for a subcommand \<open>c\<close>; the
  attributes of all three subcommands are given, of which the handler may read those
  of \<open>c\<close>.
\<close>

definition args_register :: "string \<Rightarrow> namespace" where
  "args_register c =
     [(''name'', PStr ''web''), (''address'', PNone), (''port'', PStr ''80''),
      (''service_id'', PNone), (''tags'', PList []), (''ctype'', PStr c),
      (''interval'', PInt 10), (''path'', PStr ''/bin/check''), (''duration'', PInt 30)]"

text \<open>The attributes \<^verbatim>\<open>kv_restore\<close> reads, for a restore from the standard input.\<close>

definition args_restore :: "bool \<Rightarrow> namespace" where
  "args_restore no_replace = [(''file'', PNone), (''no_replace'', PBool no_replace)]"

subsection \<open>What a restore asks of the store\<close>

text \<open>
  The value \<^verbatim>\<open>kv_restore\<close> passes on for the value of a row: with Python 2 a text value
  is replaced by its UTF-8 bytes.
\<close>

definition restored_value :: "bool \<Rightarrow> pyval \<Rightarrow> pyval" where
  "restored_value py3 v =
     (if py3 then v else (case v of PStr s \<Rightarrow> PBytes (utf8_encode s) | _ \<Rightarrow> v))"

text \<open>The call for the row of a tuple (path, flags, value), and its effect on the store.\<close>

definition restore_request :: "bool \<Rightarrow> bool \<Rightarrow> string \<times> pyval \<times> pyval \<Rightarrow> request" where
  "restore_request py3 replace r =
     (case r of (p, f, v) \<Rightarrow> KvSetRecord (PStr p) f (restored_value py3 v) replace)"

definition restore_write ::
  "bool \<Rightarrow> bool \<Rightarrow> (string \<times> pyval \<times> pyval) list \<Rightarrow> string \<times> pyval \<times> pyval \<Rightarrow> (string \<times> pyval \<times> pyval) list" where
  "restore_write py3 replace st r =
     (case r of (p, f, v) \<Rightarrow> store_set_record p f (restored_value py3 v) replace st)"

text \<open>The transport answers at least \<open>n\<close> more calls.\<close>

definition answers :: "world \<Rightarrow> nat \<Rightarrow> bool" where
  "answers w n = (case up w of None \<Rightarrow> True | Some k \<Rightarrow> n \<le> k)"

text \<open>The line \<^verbatim>\<open>connection_error\<close> writes.\<close>

definition error_line :: string where
  "error_line = ''ERROR: Could not connect to consul\<newline>''"

text \<open>A backup file of three records, and the records.\<close>

definition sample_records :: "(string \<times> pyval \<times> pyval) list" where
  "sample_records = [(''a'', PInt 0, PStr ''1''), (''b/c'', PInt 0, PStr ''2''), (''d/'', PInt 7, PNone)]"

definition sample_text :: string where
  "sample_text =
     ''[['' @ [dquote] @ ''a'' @ [dquote] @ '', 0, '' @ [dquote] @ ''1'' @ [dquote] @ ''], ['' @
     [dquote] @ ''b/c'' @ [dquote] @ '', 0, '' @ [dquote] @ ''2'' @ [dquote] @ ''], ['' @
     [dquote] @ ''d/'' @ [dquote] @ '', 7, null]]\<newline>''"

text \<open>
  A store that already holds the key \<^verbatim>\<open>a\<close>, with the backup file on the standard input;
  and an empty store whose transport answers one call and then fails.
\<close>

definition world_ab :: world where
  "world_ab = world0\<lparr>store := [(''a'', PInt 5, PStr ''old'')], stdin := sample_text\<rparr>"

definition world_cut :: world where
  "world_cut = world0\<lparr>up := Some 1, stdin := sample_text\<rparr>"

subsection \<open>Calls and failures of a run\<close>






subsection \<open>Records that a backup can carry\<close>

text \<open>
  The values that the encoder writes and the decoder gives back unchanged: no byte
  string at any depth.
\<close>

fun jsonable :: "pyval \<Rightarrow> bool"
  and jsonable_items :: "pyval list \<Rightarrow> bool" where
  "jsonable PNone = True"
| "jsonable (PBool b) = True"
| "jsonable (PInt n) = True"
| "jsonable (PStr s) = True"
| "jsonable (PBytes s) = False"
| "jsonable (PList xs) = jsonable_items xs"
| "jsonable_items [] = True"
| "jsonable_items (x # xs) = (jsonable x \<and> jsonable_items xs)"

text \<open>How deep the decoder recurses on the text of a value.\<close>

fun fuel_of :: "pyval \<Rightarrow> nat"
  and fuel_of_items :: "pyval list \<Rightarrow> nat" where
  "fuel_of (PList xs) = Suc (fuel_of_items xs)"
| "fuel_of PNone = Suc 0"
| "fuel_of (PBool b) = Suc 0"
| "fuel_of (PInt n) = Suc 0"
| "fuel_of (PStr s) = Suc 0"
| "fuel_of (PBytes s) = Suc 0"
| "fuel_of_items [] = 0"
| "fuel_of_items (x # xs) = Suc (max (fuel_of x) (fuel_of_items xs))"

text \<open>The text after a value inside an array or at the end of the input.\<close>

definition delimited :: "string \<Rightarrow> bool" where
  "delimited rest =
     (case rest of [] \<Rightarrow> True | c # _ \<Rightarrow> c = CHR '','' \<or> c = CHR '']'' \<or> is_ws c)"

text \<open>
  A valid record: its flags are such a value; its value is absent or such a value, a
  string value being what the client of the running Python holds: text with Python 3,
  and with Python 2 a byte string that is the UTF-8 form of a text.
\<close>

definition utf8_ok :: "string \<Rightarrow> bool" where
  "utf8_ok b = (case utf8_decode b of Inl e \<Rightarrow> False | Inr s \<Rightarrow> utf8_encode s = b)"

definition valid_value :: "bool \<Rightarrow> pyval \<Rightarrow> bool" where
  "valid_value py3 v =
     (case v of PBytes b \<Rightarrow> \<not> py3 \<and> utf8_ok b | PStr s \<Rightarrow> py3 | _ \<Rightarrow> jsonable v)"

definition valid_record :: "bool \<Rightarrow> string \<times> pyval \<times> pyval \<Rightarrow> bool" where
  "valid_record py3 r = (case r of (p, f, v) \<Rightarrow> jsonable f \<and> valid_value py3 v)"

text \<open>The value as the decoder returns it: the text of a Python 2 byte string.\<close>

definition decoded_value :: "pyval \<Rightarrow> pyval" where
  "decoded_value v =
     (case v of
        PBytes b \<Rightarrow> (case utf8_decode b of Inl e \<Rightarrow> v | Inr s \<Rightarrow> PStr s)
      | _ \<Rightarrow> v)"

text \<open>A text that begins with the first character of a value: no white space, no bracket.\<close>

definition starts_value :: "string \<Rightarrow> bool" where
  "starts_value t = (case t of [] \<Rightarrow> False | c # r \<Rightarrow> \<not> is_ws c \<and> c \<noteq> CHR '']'')"

text \<open>The record as the decoder returns it.\<close>

definition decoded_record :: "string \<times> pyval \<times> pyval \<Rightarrow> string \<times> pyval \<times> pyval" where
  "decoded_record r = (case r of (p, f, v) \<Rightarrow> (p, f, decoded_value v))"

text \<open>
  A backup to the standard output, of a store that holds the three sample records; and
  a restore into an empty store, with the text of that backup on the standard input.
\<close>

definition args_backup :: namespace where
  "args_backup = [(''file'', PNone)]"

definition world_full :: world where
  "world_full = world0\<lparr>store := sample_records\<rparr>"

definition world_in :: world where
  "world_in = world0\<lparr>stdin := sample_text\<rparr>"

text \<open>The length \<^verbatim>\<open>len\<close> gives for the value stored at a key, and the long line of the key.\<close>

definition value_length :: "(string \<times> pyval \<times> pyval) list \<Rightarrow> string \<Rightarrow> nat" where
  "value_length st k =
     (case map_of st k of
        None \<Rightarrow> 0
      | Some (f, v) \<Rightarrow> (case py_len v of Inl e \<Rightarrow> 0 | Inr n \<Rightarrow> n))"

definition long_line :: "(string \<times> pyval \<times> pyval) list \<Rightarrow> string \<Rightarrow> string" where
  "long_line st k = rjust 14 (nat_digits (value_length st k)) @ '' '' @ k @ ''\<newline>''"

definition has_length :: "string \<times> pyval \<times> pyval \<Rightarrow> bool" where
  "has_length r = (case py_len (snd (snd r)) of Inl e \<Rightarrow> False | Inr n \<Rightarrow> True)"

section \<open>Properties\<close>

subsection \<open>Programs\<close>

lemma bind_lift_Inr: "bind (lift (Inr x)) f = f x"
  by (rule ext) (simp add: bind_def lift_def)

lemma bind_lift_Inl: "bind (lift (Inl e)) f = lift (Inl e)"
  by (rule ext) (simp add: bind_def lift_def)

lemma bind_return: "bind (return x) f = f x"
  by (rule ext) (simp add: bind_def return_def)

lemma send_result:
  "send r w =
     (if up w = Some 0 then (Inl ConnectionError, w\<lparr>trace := trace w @ [(r, False)]\<rparr>)
      else (Inr (), w\<lparr>trace := trace w @ [(r, True)], up := map_option (\<lambda>n. n - 1) (up w)\<rparr>))"
  by (cases w) (auto simp: send_def split: option.splits nat.splits)

subsection \<open>mkdir\<close>

lemma trace_client_set:
  "trace (snd (except_connection (client_set (PStr p) v) w))
     = trace w @ [(KvSet (PStr p) v, up w \<noteq> Some 0)]"
  by (simp add: except_connection_def client_set_def bind_def send_result connection_error_def
      lift_def)

text \<open>
  What \<^verbatim>\<open>kv_mkdir\<close> stores: the test \<^verbatim>\<open>args.path[:-1] == '/'\<close> compares the path without
  its last character to \<^verbatim>\<open>'/'\<close>, so the path is kept as it is only when it is a slash
  followed by one character.
\<close>

lemma kv_mkdir_general:
  "kv_mkdir py3 [(''path'', PStr p)] w
     = except_connection (client_set (PStr (if butlast p = ''/'' then p else p @ ''/'')) PNone) w"
  by (simp add: kv_mkdir_def getattr_def bind_lift_Inr bind_return)

text \<open>
  C1. The claim: mkdir stores the path with a slash appended when its last character is
  not a slash, and stores it unchanged when it already ends with a slash. The code does
  neither at these inputs: on the path \<^verbatim>\<open>foo/\<close> the handler asks the client to set
  \<^verbatim>\<open>foo//\<close>, and on the path \<^verbatim>\<open>/a\<close>, whose last character is not a slash, it asks the
  client to set \<^verbatim>\<open>/a\<close>.
\<close>

theorem kv_mkdir_stored_path:
  "trace (snd (kv_mkdir py3 [(''path'', PStr ''foo/'')] w))
     = trace w @ [(KvSet (PStr ''foo//'') PNone, up w \<noteq> Some 0)]
   \<and> trace (snd (kv_mkdir py3 [(''path'', PStr ''/a'')] w))
     = trace w @ [(KvSet (PStr ''/a'') PNone, up w \<noteq> Some 0)]"
  by (simp add: kv_mkdir_def getattr_def bind_lift_Inr bind_return trace_client_set)

subsection \<open>The entry point\<close>

lemma scheme_not_dest: "''scheme'' \<notin> set parser_dests"
  by (simp add: parser_dests_def TOP_ARGS_def REGISTER_ARGS_def REGISTER_PARSERS_def
      KV_PARSERS_def dest_of_def option_dest_def is_prefix_def)

lemma parsed_no_scheme: "parsed args \<Longrightarrow> map_of args ''scheme'' = None"
proof -
  assume p: "parsed args"
  have "''scheme'' \<notin> fst ` set args"
  proof
    assume "''scheme'' \<in> fst ` set args"
    with p have "''scheme'' \<in> set parser_dests"
      by (auto simp: parsed_def list_all_iff)
    with scheme_not_dest show False by simp
  qed
  then show ?thesis by (simp add: map_of_eq_None_iff)
qed

lemma parsed_args_kv_get: "parsed args_kv_get"
  by (simp add: parsed_def args_kv_get_def parser_dests_def TOP_ARGS_def REGISTER_ARGS_def
      REGISTER_PARSERS_def KV_PARSERS_def dest_of_def option_dest_def is_prefix_def)

text \<open>
  C2. The option \<^verbatim>\<open>--api-scheme\<close> is bound to the attribute \<^verbatim>\<open>api_scheme\<close>, and no
  argument of the parser is bound to \<^verbatim>\<open>scheme\<close>; so for every namespace the parser can
  return, \<^verbatim>\<open>main\<close> ends with the attribute error of its first read of \<^verbatim>\<open>args.scheme\<close>,
  and the world is as before: no handler ran, no call reached the client.
\<close>

theorem main_attribute_error:
  "parsed args \<Longrightarrow>
     dest_of ([''--api-scheme''], None) = ''api_scheme'' \<and>
     ''scheme'' \<notin> set parser_dests \<and>
     main py3 args w = (Inl (AttributeError ''scheme''), w)"
  by (simp add: scheme_not_dest main_def getattr_def parsed_no_scheme bind_lift_Inl lift_def
      dest_of_def option_dest_def is_prefix_def)

theorem main_attribute_error_witness:
  "parsed args_kv_get \<and>
   main True args_kv_get world0 = (Inl (AttributeError ''scheme''), world0)"
  using main_attribute_error [OF parsed_args_kv_get, of True world0] parsed_args_kv_get by simp


text \<open>
  Where the lookup sits in \<^verbatim>\<open>main\<close>: were the attribute \<^verbatim>\<open>scheme\<close> there to be read, the run
  on the namespace of \<^verbatim>\<open>consulate kv\<close> would reach \<^verbatim>\<open>KV_ACTIONS[args.action]\<close> and end there.
\<close>

lemma main_kv_no_subcommand:
  "main True ((''scheme'', PStr ''http'') # args_kv) w = (Inl (KeyError PNone), w)"
  by (simp add: main_def getattr_def args_kv_def bind_lift_Inr bind_lift_Inl lift_def)




subsection \<open>register\<close>

lemma trace_client_register:
  "trace (snd (except_connection (client_register a b c d e f g h) w))
     = trace w @ [(ServiceRegister a b c d e f g h, up w \<noteq> Some 0)]"
  by (simp add: except_connection_def client_register_def send_result connection_error_def)

lemma percent_s_s_int: "percent_s_s py3 (PInt i) = Inr (native_str py3 (int_str i @ ''s''))"
  by (simp add: percent_s_s_def native_str_def)

lemma py_eq_lit_native: "py_eq_lit py3 (native_str py3 c) l = (c = l)"
  by (simp add: native_str_def)

lemma int_str_10: "int_str 10 = ''10''"
  by code_simp

lemma int_str_30: "int_str 30 = ''30''"
  by code_simp

text \<open>
  C9. For a parsed register command, whose \<^verbatim>\<open>ctype\<close> is one of the three subcommand
  names and whose \<^verbatim>\<open>interval\<close> or \<^verbatim>\<open>duration\<close> is the integer that \<^verbatim>\<open>type=int\<close>
  produced, the handler makes one registration call. With \<^verbatim>\<open>check\<close> it carries the script
  path and the interval as its decimal digits followed by \<^verbatim>\<open>s\<close>, and no TTL; with \<^verbatim>\<open>ttl\<close>
  the duration followed by \<^verbatim>\<open>s\<close>, and neither script nor interval; with \<^verbatim>\<open>no-check\<close>
  none of the three.
\<close>

theorem register_check_variant:
  assumes "map_of args ''ctype'' = Some (native_str py3 c)"
    and "c = ''check'' \<or> c = ''no-check'' \<or> c = ''ttl''"
    and "c = ''check'' \<Longrightarrow> map_of args ''interval'' = Some (PInt i) \<and> map_of args ''path'' = Some p"
    and "c = ''ttl'' \<Longrightarrow> map_of args ''duration'' = Some (PInt d)"
    and "map_of args ''tags'' = Some t"
    and "(if py_truth t then py_split_comma py3 t else Inr PNone) = Inr tags"
    and "map_of args ''name'' = Some name"
    and "map_of args ''service_id'' = Some service_id"
    and "map_of args ''address'' = Some address"
    and "map_of args ''port'' = Some port"
  shows "trace (snd (register py3 args w)) =
           trace w @
           [(ServiceRegister name service_id address port tags
               (if c = ''check'' then p else PNone)
               (if c = ''check'' then native_str py3 (int_str i @ ''s'') else PNone)
               (if c = ''ttl'' then native_str py3 (int_str d @ ''s'') else PNone),
             up w \<noteq> Some 0)]"
proof -
  have tg: "(if py_truth t then lift (py_split_comma py3 t) else return PNone) = lift (Inr tags)"
    using assms(6) by (auto simp: lift_def return_def fun_eq_iff split: if_splits)
  consider "c = ''check''" | "c = ''no-check''" | "c = ''ttl''" using assms(2) by blast
  then show ?thesis
  proof cases
    case 1
    with assms show ?thesis
      by (simp add: register_def getattr_def bind_lift_Inr bind_return py_eq_lit_native
          percent_s_s_int tg trace_client_register)
  next
    case 2
    with assms show ?thesis
      by (simp add: register_def getattr_def bind_lift_Inr bind_return py_eq_lit_native
          percent_s_s_int tg trace_client_register)
  next
    case 3
    with assms show ?thesis
      by (simp add: register_def getattr_def bind_lift_Inr bind_return py_eq_lit_native
          percent_s_s_int tg trace_client_register)
  qed
qed

theorem register_check_variant_witness:
  "trace (snd (register True (args_register ''check'') world0)) =
     [(ServiceRegister (PStr ''web'') PNone PNone (PStr ''80'') PNone
         (PStr ''/bin/check'') (PStr ''10s'') PNone, True)] \<and>
   trace (snd (register True (args_register ''ttl'') world0)) =
     [(ServiceRegister (PStr ''web'') PNone PNone (PStr ''80'') PNone
         PNone PNone (PStr ''30s''), True)] \<and>
   trace (snd (register True (args_register ''no-check'') world0)) =
     [(ServiceRegister (PStr ''web'') PNone PNone (PStr ''80'') PNone
         PNone PNone PNone, True)]"
proof -
  have a: "trace (snd (register True (args_register ''check'') world0)) =
     [(ServiceRegister (PStr ''web'') PNone PNone (PStr ''80'') PNone
         (PStr ''/bin/check'') (PStr ''10s'') PNone, True)]"
    using register_check_variant [of "args_register ''check''" True "''check''" 10
        "PStr ''/bin/check''" 30 "PList []" PNone "PStr ''web''" PNone PNone "PStr ''80''" world0]
    by (simp add: args_register_def native_str_def world0_def int_str_10)
  have b: "trace (snd (register True (args_register ''ttl'') world0)) =
     [(ServiceRegister (PStr ''web'') PNone PNone (PStr ''80'') PNone
         PNone PNone (PStr ''30s''), True)]"
    using register_check_variant [of "args_register ''ttl''" True "''ttl''" 10
        "PStr ''/bin/check''" 30 "PList []" PNone "PStr ''web''" PNone PNone "PStr ''80''" world0]
    by (simp add: args_register_def native_str_def world0_def int_str_30)
  have c: "trace (snd (register True (args_register ''no-check'') world0)) =
     [(ServiceRegister (PStr ''web'') PNone PNone (PStr ''80'') PNone
         PNone PNone PNone, True)]"
    using register_check_variant [of "args_register ''no-check''" True "''no-check''" 10
        "PStr ''/bin/check''" 30 "PList []" PNone "PStr ''web''" PNone PNone "PStr ''80''" world0]
    by (simp add: args_register_def native_str_def world0_def)
  from a b c show ?thesis by simp
qed

subsection \<open>The decoder\<close>

text \<open>
  Every step of the decoder consumes text, so the depth bound that \<open>json_loads\<close>
  passes down is never reached: a text that does not decode fails with
  \<open>ValueError\<close>, or with \<open>OutsideModel\<close> when it holds a float, an object or an
  escape that the model leaves out.
\<close>

lemma cons_chars_shorter:
  assumes "cons_chars c r = Inr (str, rest)"
  obtains str' where "r = Inr (str', rest)"
  using assms by (cases r) (auto simp: cons_chars_def)

lemma cons_chars_error: "cons_chars c r = Inl e \<Longrightarrow> r = Inl e"
  by (cases r) (auto simp: cons_chars_def)

lemma json_chars_step:
  assumes "json_chars (c # cs) = Inr (str, rest)"
  shows "rest = cs \<or>
         (\<exists>ys str'. json_chars ys = Inr (str', rest) \<and> length ys \<le> length cs)"
proof (cases "c = dquote")
  case True
  with assms show ?thesis by simp
next
  case nq: False
  show ?thesis
  proof (cases "c = backslash")
    case False
    with nq assms have "cons_chars c (json_chars cs) = Inr (str, rest)"
      by (auto split: if_splits)
    then obtain str' where "json_chars cs = Inr (str', rest)"
      by (rule cons_chars_shorter)
    then show ?thesis by auto
  next
    case True
    show ?thesis
    proof (cases cs)
      case Nil
      with nq True assms show ?thesis by simp
    next
      case (Cons e r)
      show ?thesis
      proof (cases "e = CHR ''u''")
        case False
        with nq True Cons assms obtain x where
          "cons_chars x (json_chars r) = Inr (str, rest)"
          by (auto split: option.splits)
        then obtain str' where "json_chars r = Inr (str', rest)"
          by (rule cons_chars_shorter)
        then show ?thesis by (auto simp: Cons)
      next
        case u: True
        from nq True Cons u assms
        have "(case r of
                h1 # h2 # h3 # h4 # r' \<Rightarrow>
                  (case (hex_val h1, hex_val h2, hex_val h3, hex_val h4) of
                     (Some a, Some b, Some c', Some d) \<Rightarrow>
                       if a = 0 \<and> b = 0 then cons_chars (char_of (16 * c' + d)) (json_chars r')
                       else Inl OutsideModel
                   | _ \<Rightarrow> Inl ValueError)
              | _ \<Rightarrow> Inl ValueError) = Inr (str, rest)"
          by simp
        then obtain h1 h2 h3 h4 r' x where r: "r = h1 # h2 # h3 # h4 # r'"
          and k: "cons_chars x (json_chars r') = Inr (str, rest)"
          by (auto split: list.splits option.splits if_splits)
        from k obtain str' where "json_chars r' = Inr (str', rest)"
          by (rule cons_chars_shorter)
        then show ?thesis by (auto simp: Cons r)
      qed
    qed
  qed
qed

lemma json_chars_shorter:
  "json_chars s = Inr (str, rest) \<Longrightarrow> length rest < length s"
proof (induction s arbitrary: str rest rule: length_induct)
  case (1 s)
  from "1.prems" obtain c cs where s: "s = c # cs" by (cases s) auto
  from json_chars_step [of c cs str rest] "1.prems" [unfolded s]
  consider "rest = cs"
    | ys str' where "json_chars ys = Inr (str', rest)" "length ys \<le> length cs"
    by blast
  then show ?case
  proof cases
    case 1
    then show ?thesis by (simp add: s)
  next
    case 2
    with "1.IH" s have "length rest < length ys" by simp
    with 2 s show ?thesis by simp
  qed
qed

lemma json_chars_error_step:
  assumes "json_chars (c # cs) = Inl e"
  shows "e = ValueError \<or> e = OutsideModel \<or>
         (\<exists>ys. json_chars ys = Inl e \<and> length ys \<le> length cs)"
proof (cases "c = dquote")
  case True
  with assms show ?thesis by simp
next
  case nq: False
  show ?thesis
  proof (cases "c = backslash")
    case False
    with nq assms have "e = ValueError \<or> cons_chars c (json_chars cs) = Inl e"
      by (auto split: if_splits)
    then have "e = ValueError \<or> json_chars cs = Inl e"
      using cons_chars_error by blast
    then show ?thesis by auto
  next
    case True
    show ?thesis
    proof (cases cs)
      case Nil
      with nq True assms show ?thesis by simp
    next
      case (Cons x r)
      show ?thesis
      proof (cases "x = CHR ''u''")
        case False
        with nq True Cons assms
        have "e = ValueError \<or> (\<exists>y. cons_chars y (json_chars r) = Inl e)"
          by (auto split: option.splits)
        then have "e = ValueError \<or> json_chars r = Inl e"
          using cons_chars_error by blast
        then show ?thesis by (auto simp: Cons)
      next
        case u: True
        from nq True Cons u assms
        have "(case r of
                h1 # h2 # h3 # h4 # r' \<Rightarrow>
                  (case (hex_val h1, hex_val h2, hex_val h3, hex_val h4) of
                     (Some a, Some b, Some c', Some d) \<Rightarrow>
                       if a = 0 \<and> b = 0 then cons_chars (char_of (16 * c' + d)) (json_chars r')
                       else Inl OutsideModel
                   | _ \<Rightarrow> Inl ValueError)
              | _ \<Rightarrow> Inl ValueError) = Inl e"
          by simp
        then have "e = ValueError \<or> e = OutsideModel \<or>
           (\<exists>h1 h2 h3 h4 r' y. r = h1 # h2 # h3 # h4 # r' \<and> cons_chars y (json_chars r') = Inl e)"
          by (auto split: list.splits option.splits if_splits)
        then have "e = ValueError \<or> e = OutsideModel \<or>
           (\<exists>h1 h2 h3 h4 r'. r = h1 # h2 # h3 # h4 # r' \<and> json_chars r' = Inl e)"
          using cons_chars_error by blast
        then show ?thesis by (auto simp: Cons)
      qed
    qed
  qed
qed

lemma json_chars_errors: "json_chars s = Inl e \<Longrightarrow> e = ValueError \<or> e = OutsideModel"
proof (induction s rule: length_induct)
  case (1 s)
  show ?case
  proof (cases s)
    case Nil
    with "1.prems" show ?thesis by simp
  next
    case (Cons c cs)
    from json_chars_error_step [of c cs e] "1.prems" [unfolded Cons]
    consider "e = ValueError \<or> e = OutsideModel"
      | ys where "json_chars ys = Inl e" "length ys \<le> length cs"
      by blast
    then show ?thesis
    proof cases
      case 1
      then show ?thesis .
    next
      case 2
      then have "length ys < length s" by (simp add: Cons)
      with "1.IH" 2(1) show ?thesis by blast
    qed
  qed
qed

lemma json_number_shorter:
  "json_number s = Inr (v, rest) \<Longrightarrow> length rest < length s"
proof -
  assume a: "json_number s = Inr (v, rest)"
  have d: "\<And>cs. length (dropWhile is_digit cs) \<le> length cs"
    by (rule length_dropWhile_le)
  from a show ?thesis
  proof (cases s)
    case Nil
    with a show ?thesis by (simp add: json_number_def)
  next
    case (Cons c cs)
    show ?thesis
    proof (cases "c = CHR ''-''")
      case True
      with a Cons show ?thesis
        using d
        by (cases cs) (auto simp: json_number_def Let_def le_imp_less_Suc less_Suc_eq_le
            le_SucI split: if_splits)
    next
      case False
      with a Cons show ?thesis
        using d
        by (auto simp: json_number_def Let_def le_imp_less_Suc split: if_splits)
    qed
  qed
qed

lemma json_number_errors: "json_number s = Inl e \<Longrightarrow> e = ValueError \<or> e = OutsideModel"
  by (cases s) (auto simp: json_number_def Let_def split: list.splits if_splits)

lemma skip_ws_length: "length (skip_ws s) \<le> length s"
  unfolding skip_ws_def by (rule length_dropWhile_le)

lemma json_value_Suc_error:
  assumes "json_value (Suc n) s = Inl e"
  shows "e = ValueError \<or> e = OutsideModel \<or>
         (\<exists>t. length t < length s \<and> json_items n t = Inl e)"
proof (cases s)
  case Nil
  with assms show ?thesis by simp
next
  case (Cons c cs)
  show ?thesis
  proof (cases "c = dquote")
    case True
    with assms Cons obtain "json_chars cs = Inl e"
      by (auto split: sum.splits)
    then show ?thesis using json_chars_errors by blast
  next
    case nq: False
    show ?thesis
    proof (cases "c = CHR ''{''")
      case True
      with assms Cons nq show ?thesis by simp
    next
      case nb: False
      show ?thesis
      proof (cases "c = CHR ''[''")
        case True
        show ?thesis
        proof (cases "skip_ws cs")
          case Nil
          with assms Cons nq nb True show ?thesis by simp
        next
          case sk: (Cons d ds)
          from skip_ws_length [of cs] sk have len: "length (d # ds) < length s"
            by (simp add: Cons)
          from assms Cons nq nb True sk have "json_items n (d # ds) = Inl e"
            by (auto split: if_splits sum.splits)
          with len show ?thesis by blast
        qed
      next
        case False
        with assms Cons nq nb have "json_number s = Inl e"
          by (auto split: if_splits)
        then show ?thesis using json_number_errors by blast
      qed
    qed
  qed
qed

lemma json_value_Suc_result:
  assumes "json_value (Suc n) s = Inr (v, r)"
  shows "length r < length s \<or>
         (\<exists>t vs. length t < length s \<and> json_items n t = Inr (vs, r))"
proof (cases s)
  case Nil
  with assms show ?thesis by simp
next
  case (Cons c cs)
  show ?thesis
  proof (cases "c = dquote")
    case True
    with assms Cons obtain str where "json_chars cs = Inr (str, r)"
      by (auto split: sum.splits)
    from json_chars_shorter [OF this] show ?thesis by (simp add: Cons)
  next
    case nq: False
    show ?thesis
    proof (cases "c = CHR ''{''")
      case True
      with assms Cons nq show ?thesis by simp
    next
      case nb: False
      show ?thesis
      proof (cases "c = CHR ''[''")
        case True
        show ?thesis
        proof (cases "skip_ws cs")
          case Nil
          with assms Cons nq nb True show ?thesis by simp
        next
          case sk: (Cons d ds)
          from skip_ws_length [of cs] sk have len: "length (d # ds) < length s"
            by (simp add: Cons)
          show ?thesis
          proof (cases "d = CHR '']''")
            case True
            with assms Cons nq nb \<open>c = CHR ''[''\<close> sk have "r = ds" by simp
            with len show ?thesis by simp
          next
            case False
            with assms Cons nq nb \<open>c = CHR ''[''\<close> sk
            obtain vs where "json_items n (d # ds) = Inr (vs, r)"
              by (auto split: sum.splits)
            with len show ?thesis by blast
          qed
        qed
      next
        case False
        with assms Cons nq nb
        have "r = drop 4 s \<or> r = drop 5 s \<or> json_number s = Inr (v, r)"
          by (auto split: if_splits)
        then show ?thesis
          using json_number_shorter [of s v r] by (auto simp: Cons)
      qed
    qed
  qed
qed

lemma json_items_Suc_error:
  assumes "json_items (Suc n) s = Inl e"
  shows "e = ValueError \<or> json_value n s = Inl e \<or>
         (\<exists>v r t. json_value n s = Inr (v, r) \<and> length t < length r \<and> json_items n t = Inl e)"
proof (cases "json_value n s")
  case (Inl e')
  with assms show ?thesis by simp
next
  case (Inr vr)
  obtain v r where vr: "vr = (v, r)" by (cases vr) auto
  show ?thesis
  proof (cases "skip_ws r")
    case Nil
    with assms Inr vr show ?thesis by simp
  next
    case (Cons d ds)
    from skip_ws_length [of r] Cons have a: "length ds < length r" by simp
    from skip_ws_length [of ds] a have len: "length (skip_ws ds) < length r" by simp
    from assms Inr vr Cons have "e = ValueError \<or> json_items n (skip_ws ds) = Inl e"
      by (auto split: if_splits sum.splits)
    with len Inr vr show ?thesis by blast
  qed
qed

lemma json_items_Suc_result:
  assumes "json_items (Suc n) s = Inr (vs, r')"
  shows "\<exists>v r. json_value n s = Inr (v, r) \<and>
           (length r' < length r \<or>
            (\<exists>t vs'. length t < length r \<and> json_items n t = Inr (vs', r')))"
proof (cases "json_value n s")
  case (Inl e')
  with assms show ?thesis by simp
next
  case (Inr vr)
  obtain v r where vr: "vr = (v, r)" by (cases vr) auto
  show ?thesis
  proof (cases "skip_ws r")
    case Nil
    with assms Inr vr show ?thesis by simp
  next
    case (Cons d ds)
    from skip_ws_length [of r] Cons have a: "length ds < length r" by simp
    from skip_ws_length [of ds] a have len: "length (skip_ws ds) < length r" by simp
    from assms Inr vr Cons
    have "r' = ds \<or> (\<exists>vs'. json_items n (skip_ws ds) = Inr (vs', r'))"
      by (auto split: if_splits sum.splits)
    with len a Inr vr show ?thesis by blast
  qed
qed

lemma json_fuel:
  "(\<forall>e. json_value n s = Inl e \<longrightarrow>
        e = ValueError \<or> e = OutsideModel \<or> (e = RecursionError \<and> n < 2 * length s + 1)) \<and>
   (\<forall>v r. json_value n s = Inr (v, r) \<longrightarrow> length r < length s) \<and>
   (\<forall>e. json_items n s = Inl e \<longrightarrow>
        e = ValueError \<or> e = OutsideModel \<or> (e = RecursionError \<and> n < 2 * length s + 2)) \<and>
   (\<forall>vs r. json_items n s = Inr (vs, r) \<longrightarrow> length r < length s)"
proof (induction n arbitrary: s)
  case 0
  show ?case by simp
next
  case (Suc n)
  have ve: "\<And>t e. json_value n t = Inl e \<Longrightarrow>
        e = ValueError \<or> e = OutsideModel \<or> (e = RecursionError \<and> n < 2 * length t + 1)"
    and vr: "\<And>t v r. json_value n t = Inr (v, r) \<Longrightarrow> length r < length t"
    and ie: "\<And>t e. json_items n t = Inl e \<Longrightarrow>
        e = ValueError \<or> e = OutsideModel \<or> (e = RecursionError \<and> n < 2 * length t + 2)"
    and ir: "\<And>t vs r. json_items n t = Inr (vs, r) \<Longrightarrow> length r < length t"
    using Suc.IH by blast+
  have a: "\<And>e. json_value (Suc n) s = Inl e \<Longrightarrow>
        e = ValueError \<or> e = OutsideModel \<or> (e = RecursionError \<and> Suc n < 2 * length s + 1)"
  proof -
    fix e
    assume "json_value (Suc n) s = Inl e"
    from json_value_Suc_error [OF this]
    consider "e = ValueError \<or> e = OutsideModel"
      | t where "length t < length s" "json_items n t = Inl e"
      by blast
    then show "e = ValueError \<or> e = OutsideModel \<or> (e = RecursionError \<and> Suc n < 2 * length s + 1)"
    proof cases
      case 1
      then show ?thesis by blast
    next
      case 2
      from ie [OF 2(2)] 2(1) show ?thesis by auto
    qed
  qed
  have b: "\<And>v r. json_value (Suc n) s = Inr (v, r) \<Longrightarrow> length r < length s"
  proof -
    fix v r
    assume "json_value (Suc n) s = Inr (v, r)"
    from json_value_Suc_result [OF this]
    consider "length r < length s"
      | t vs where "length t < length s" "json_items n t = Inr (vs, r)"
      by blast
    then show "length r < length s"
    proof cases
      case 1
      then show ?thesis .
    next
      case 2
      from ir [OF 2(2)] 2(1) show ?thesis by simp
    qed
  qed
  have c: "\<And>e. json_items (Suc n) s = Inl e \<Longrightarrow>
        e = ValueError \<or> e = OutsideModel \<or> (e = RecursionError \<and> Suc n < 2 * length s + 2)"
  proof -
    fix e
    assume "json_items (Suc n) s = Inl e"
    from json_items_Suc_error [OF this]
    consider "e = ValueError" | "json_value n s = Inl e"
      | v r t where "json_value n s = Inr (v, r)" "length t < length r" "json_items n t = Inl e"
      by blast
    then show "e = ValueError \<or> e = OutsideModel \<or> (e = RecursionError \<and> Suc n < 2 * length s + 2)"
    proof cases
      case 1
      then show ?thesis by blast
    next
      case 2
      from ve [OF 2] show ?thesis by auto
    next
      case 3
      from vr [OF 3(1)] ie [OF 3(3)] 3(2) show ?thesis by auto
    qed
  qed
  have d: "\<And>vs r. json_items (Suc n) s = Inr (vs, r) \<Longrightarrow> length r < length s"
  proof -
    fix vs r'
    assume "json_items (Suc n) s = Inr (vs, r')"
    from json_items_Suc_result [OF this]
    obtain v r where v: "json_value n s = Inr (v, r)"
      and k: "length r' < length r \<or>
            (\<exists>t vs'. length t < length r \<and> json_items n t = Inr (vs', r'))"
      by blast
    from k ir have "length r' < length r" by fastforce
    with vr [OF v] show "length r' < length s" by simp
  qed
  from a b c d show ?case by blast
qed

lemma json_loads_errors:
  assumes "json_loads s = Inl e"
  shows "e = ValueError \<or> e = OutsideModel"
proof (cases "json_value (Suc (length s + length s)) (skip_ws s)")
  case (Inl e')
  from assms have e: "e' = e"
    unfolding json_loads_def Inl by simp
  from json_fuel [of "Suc (length s + length s)" "skip_ws s"] Inl e
  have "e = ValueError \<or> e = OutsideModel \<or>
        (e = RecursionError \<and> Suc (length s + length s) < 2 * length (skip_ws s) + 1)"
    by blast
  with skip_ws_length [of s] show ?thesis by auto
next
  case (Inr vr)
  obtain v r where vr: "vr = (v, r)" by (cases vr) auto
  from assms have "(if skip_ws r = [] then Inr v else Inl ValueError) = (Inl e :: exn + pyval)"
    unfolding json_loads_def Inr vr by simp
  then show ?thesis by (simp split: if_splits)
qed

subsection \<open>restore\<close>

lemma loads_truncated: "json_loads ''[[1, 2'' = Inl ValueError"
  by (simp add: json_loads_def skip_ws_def is_ws_def dquote_def is_prefix_def json_number_def
      is_digit_def)

text \<open>
  C4. When \<^verbatim>\<open>json.load\<close> fails on the text of the handle, the restore handler ends with
  that \<^verbatim>\<open>ValueError\<close>, not with the exit of \<^verbatim>\<open>connection_error\<close>, and the world is as
  before: no call was made on the client and nothing was written to the error stream.
\<close>

theorem kv_restore_parse_failure:
  assumes "getattr args ''file'' = Inr file"
    and "read_all file w = (Inr text, w)"
    and "json_loads text = Inl ValueError"
  shows "kv_restore py3 args w = (Inl ValueError, w)"
  using assms by (simp add: kv_restore_def bind_lift_Inr bind_def lift_def)

theorem kv_restore_parse_failure_witness:
  "kv_restore True (args_restore False) (world0\<lparr>stdin := ''[[1, 2''\<rparr>)
     = (Inl ValueError, world0\<lparr>stdin := ''[[1, 2''\<rparr>)"
  using kv_restore_parse_failure [of "args_restore False" PNone
      "world0\<lparr>stdin := ''[[1, 2''\<rparr>" "''[[1, 2''" True]
  by (simp add: args_restore_def getattr_def read_all_def world0_def loads_truncated)

lemma except_set_record:
  "except_connection (client_set_record (PStr p) f v rep) w =
     (if up w = Some 0
      then (Inl (SystemExit 1),
            w\<lparr>trace := trace w @ [(KvSetRecord (PStr p) f v rep, False)],
              stderr := stderr w @ error_line\<rparr>)
      else (Inr (),
            w\<lparr>trace := trace w @ [(KvSetRecord (PStr p) f v rep, True)],
              up := map_option (\<lambda>n. n - 1) (up w),
              store := store_set_record p f v rep (store w)\<rparr>))"
  by (simp add: except_connection_def client_set_record_def bind_def send_result
      connection_error_def lift_def error_line_def)

lemma restore_row_tuple:
  assumes "getattr args ''no_replace'' = Inr nr"
  shows "restore_row py3 args (row_of (p, f, v)) w =
           except_connection
             (client_set_record (PStr p) f (restored_value py3 v) (\<not> py_truth nr)) w"
proof (cases py3)
  case True
  with assms show ?thesis
    by (simp add: restore_row_def row_of_def bind_return bind_lift_Inr nth_opt_def
        restored_value_def)
next
  case False
  with assms show ?thesis
    by (cases v)
       (simp_all add: restore_row_def row_of_def bind_return bind_lift_Inr nth_opt_def
         restored_value_def)
qed

lemma restore_loop_answered:
  assumes "getattr args ''no_replace'' = Inr nr"
  shows "answers w (length rs) \<Longrightarrow>
         fst (restore_loop py3 args (map row_of rs) w) = Inr () \<and>
         trace (snd (restore_loop py3 args (map row_of rs) w)) =
           trace w @ map (\<lambda>r. (restore_request py3 (\<not> py_truth nr) r, True)) rs \<and>
         store (snd (restore_loop py3 args (map row_of rs) w)) =
           foldl (restore_write py3 (\<not> py_truth nr)) (store w) rs \<and>
         stderr (snd (restore_loop py3 args (map row_of rs) w)) = stderr w"
proof (induction rs arbitrary: w)
  case Nil
  then show ?case by simp
next
  case (Cons r rs)
  obtain p f v where r: "r = (p, f, v)" by (cases r) auto
  from Cons.prems have up: "up w \<noteq> Some 0"
    by (auto simp: answers_def)
  let ?w = "w\<lparr>trace := trace w @ [(KvSetRecord (PStr p) f (restored_value py3 v) (\<not> py_truth nr), True)],
              up := map_option (\<lambda>n. n - 1) (up w),
              store := store_set_record p f (restored_value py3 v) (\<not> py_truth nr) (store w)\<rparr>"
  have step: "restore_row py3 args (row_of (p, f, v)) w = (Inr (), ?w)"
    using up by (simp add: r restore_row_tuple [OF assms] except_set_record)
  have "answers ?w (length rs)"
    using Cons.prems by (auto simp: answers_def split: option.splits)
  from Cons.IH [OF this] show ?case
    by (simp add: step r restore_request_def restore_write_def)
qed

lemma restore_loop_cut:
  assumes "getattr args ''no_replace'' = Inr nr"
  shows "up w = Some k \<Longrightarrow> k < length rs \<Longrightarrow>
         fst (restore_loop py3 args (map row_of rs) w) = Inl (SystemExit 1) \<and>
         trace (snd (restore_loop py3 args (map row_of rs) w)) =
           trace w @ map (\<lambda>r. (restore_request py3 (\<not> py_truth nr) r, True)) (take k rs)
             @ [(restore_request py3 (\<not> py_truth nr) (rs ! k), False)] \<and>
         store (snd (restore_loop py3 args (map row_of rs) w)) =
           foldl (restore_write py3 (\<not> py_truth nr)) (store w) (take k rs) \<and>
         stderr (snd (restore_loop py3 args (map row_of rs) w)) = stderr w @ error_line"
proof (induction rs arbitrary: w k)
  case Nil
  then show ?case by simp
next
  case (Cons r rs)
  obtain p f v where r: "r = (p, f, v)" by (cases r) auto
  show ?case
  proof (cases k)
    case 0
    with Cons.prems show ?thesis
      by (simp add: r restore_row_tuple [OF assms] except_set_record restore_request_def)
  next
    case (Suc j)
    let ?w = "w\<lparr>trace := trace w @ [(KvSetRecord (PStr p) f (restored_value py3 v) (\<not> py_truth nr), True)],
              up := map_option (\<lambda>n. n - 1) (up w),
              store := store_set_record p f (restored_value py3 v) (\<not> py_truth nr) (store w)\<rparr>"
    have step: "restore_row py3 args (row_of (p, f, v)) w = (Inr (), ?w)"
      using Cons.prems Suc by (simp add: r restore_row_tuple [OF assms] except_set_record)
    have "up ?w = Some j" "j < length rs"
      using Cons.prems Suc by simp_all
    from Cons.IH [OF this] show ?thesis
      by (simp add: step r Suc restore_request_def restore_write_def)
  qed
qed

lemma kv_restore_loop:
  assumes "getattr args ''file'' = Inr file"
    and "read_all file w = (Inr text, w)"
    and "json_loads text = Inr (PList rows)"
  shows "kv_restore py3 args w = restore_loop py3 args rows w"
  using assms by (simp add: kv_restore_def bind_lift_Inr bind_def lift_def)

lemma store_set_record_keep:
  "store_set_record p f v False st = (if p \<in> fst ` set st then st else st @ [(p, f, v)])"
  by (simp add: store_set_record_def store_write_def)

lemma restore_write_extends:
  "\<exists>new. foldl (restore_write py3 False) st rs = st @ new"
proof (induction rs arbitrary: st)
  case Nil
  then show ?case by simp
next
  case (Cons r rs)
  obtain p f v where r: "r = (p, f, v)" by (cases r) auto
  have "\<exists>one. restore_write py3 False st r = st @ one"
    by (simp add: r restore_write_def store_set_record_keep)
  then obtain one where one: "restore_write py3 False st r = st @ one" ..
  from Cons.IH [of "st @ one"] obtain new
    where "foldl (restore_write py3 False) (st @ one) rs = (st @ one) @ new" ..
  then show ?case by (simp add: one)
qed

lemma map_of_extended:
  "p \<in> fst ` set st \<Longrightarrow> map_of (st @ new) p = map_of st p"
  by (auto simp: map_add_def map_of_eq_None_iff split: option.splits)

lemma loads_sample: "json_loads sample_text = Inr (PList (map row_of sample_records))"
  by code_simp

lemma kv_restore_answered:
  assumes "getattr args ''file'' = Inr file"
    and "read_all file w = (Inr text, w)"
    and "json_loads text = Inr (PList (map row_of rs))"
    and "getattr args ''no_replace'' = Inr nr"
    and "answers w (length rs)"
  shows "fst (kv_restore py3 args w) = Inr () \<and>
         trace (snd (kv_restore py3 args w)) =
           trace w @ map (\<lambda>r. (restore_request py3 (\<not> py_truth nr) r, True)) rs \<and>
         store (snd (kv_restore py3 args w)) =
           foldl (restore_write py3 (\<not> py_truth nr)) (store w) rs"
  using restore_loop_answered [OF assms(4) assms(5), of py3]
  by (simp add: kv_restore_loop [OF assms(1-3)])

text \<open>
  C3. For the rows of the tuples of the input, and a transport that answers, the restore
  handler makes exactly one \<^verbatim>\<open>set_record\<close> call per tuple, in order, with its path, flags
  and value, and with the replace argument the negation of the no-replace flag. The store
  afterwards is the store before with these writes applied, and with the no-replace flag
  set every key that was in the store before the restore still has the flags and the
  value it had.
\<close>

theorem kv_restore_writes:
  assumes "getattr args ''file'' = Inr file"
    and "read_all file w = (Inr text, w)"
    and "json_loads text = Inr (PList (map row_of rs))"
    and "getattr args ''no_replace'' = Inr nr"
    and "answers w (length rs)"
  shows "fst (kv_restore py3 args w) = Inr () \<and>
         trace (snd (kv_restore py3 args w)) =
           trace w @ map (\<lambda>r. (restore_request py3 (\<not> py_truth nr) r, True)) rs \<and>
         store (snd (kv_restore py3 args w)) =
           foldl (restore_write py3 (\<not> py_truth nr)) (store w) rs \<and>
         (py_truth nr \<longrightarrow>
            (\<forall>p \<in> fst ` set (store w).
               map_of (store (snd (kv_restore py3 args w))) p = map_of (store w) p))"
proof -
  have loop: "kv_restore py3 args w = restore_loop py3 args (map row_of rs) w"
    using assms(1-3) by (rule kv_restore_loop)
  note run = restore_loop_answered [OF assms(4) assms(5), of py3]
  have keep: "py_truth nr \<longrightarrow>
            (\<forall>p \<in> fst ` set (store w).
               map_of (store (snd (kv_restore py3 args w))) p = map_of (store w) p)"
  proof (intro impI ballI)
    fix p
    assume nr: "py_truth nr" and p: "p \<in> fst ` set (store w)"
    from restore_write_extends [of py3 "store w" rs] obtain new
      where "foldl (restore_write py3 False) (store w) rs = store w @ new" ..
    with run nr have "store (snd (kv_restore py3 args w)) = store w @ new"
      by (simp add: loop)
    then show "map_of (store (snd (kv_restore py3 args w))) p = map_of (store w) p"
      using p by (simp only: map_of_extended)
  qed
  from run keep show ?thesis by (simp add: loop)
qed

theorem kv_restore_writes_witness:
  "fst (kv_restore True (args_restore True) world_ab) = Inr () \<and>
   trace (snd (kv_restore True (args_restore True) world_ab)) =
     [(KvSetRecord (PStr ''a'') (PInt 0) (PStr ''1'') False, True),
      (KvSetRecord (PStr ''b/c'') (PInt 0) (PStr ''2'') False, True),
      (KvSetRecord (PStr ''d/'') (PInt 7) PNone False, True)] \<and>
   store (snd (kv_restore True (args_restore True) world_ab)) =
     [(''a'', PInt 5, PStr ''old''), (''b/c'', PInt 0, PStr ''2''), (''d/'', PInt 7, PNone)] \<and>
   map_of (store (snd (kv_restore True (args_restore True) world_ab))) ''a''
     = Some (PInt 5, PStr ''old'')"
proof -
  have a: "getattr (args_restore True) ''file'' = Inr PNone"
    by (simp add: args_restore_def getattr_def)
  have b: "read_all PNone world_ab = (Inr sample_text, world_ab)"
    by (simp add: read_all_def world_ab_def world0_def)
  have c: "getattr (args_restore True) ''no_replace'' = Inr (PBool True)"
    by (simp add: args_restore_def getattr_def)
  have d: "answers world_ab (length sample_records)"
    by (simp add: answers_def world_ab_def world0_def)
  from kv_restore_writes [OF a b loads_sample c d, of True]
  show ?thesis
    by (simp add: sample_records_def restore_request_def restore_write_def restored_value_def
        store_set_record_def store_write_def world_ab_def world0_def)
qed

text \<open>
  C5. When the transport answers \<open>k\<close> calls and fails on the next one, with more than
  \<open>k\<close> tuples in the input, the restore handler ends with exit status 1; the calls it made
  are those of the first \<open>k\<close> tuples, answered, and the one of the next tuple, failed, and
  none after it; the store holds the writes of the first \<open>k\<close> tuples; and the error
  stream has the one line of \<^verbatim>\<open>connection_error\<close> more.
\<close>

theorem kv_restore_cut_short:
  assumes "getattr args ''file'' = Inr file"
    and "read_all file w = (Inr text, w)"
    and "json_loads text = Inr (PList (map row_of rs))"
    and "getattr args ''no_replace'' = Inr nr"
    and "up w = Some k"
    and "k < length rs"
  shows "fst (kv_restore py3 args w) = Inl (SystemExit 1) \<and>
         trace (snd (kv_restore py3 args w)) =
           trace w @ map (\<lambda>r. (restore_request py3 (\<not> py_truth nr) r, True)) (take k rs)
             @ [(restore_request py3 (\<not> py_truth nr) (rs ! k), False)] \<and>
         store (snd (kv_restore py3 args w)) =
           foldl (restore_write py3 (\<not> py_truth nr)) (store w) (take k rs) \<and>
         stderr (snd (kv_restore py3 args w)) = stderr w @ error_line"
  using restore_loop_cut [OF assms(4) assms(5) assms(6), of py3]
  by (simp add: kv_restore_loop [OF assms(1-3)])

theorem kv_restore_cut_short_witness:
  "fst (kv_restore True (args_restore False) world_cut) = Inl (SystemExit 1) \<and>
   trace (snd (kv_restore True (args_restore False) world_cut)) =
     [(KvSetRecord (PStr ''a'') (PInt 0) (PStr ''1'') True, True),
      (KvSetRecord (PStr ''b/c'') (PInt 0) (PStr ''2'') True, False)] \<and>
   store (snd (kv_restore True (args_restore False) world_cut)) = [(''a'', PInt 0, PStr ''1'')] \<and>
   stderr (snd (kv_restore True (args_restore False) world_cut))
     = ''ERROR: Could not connect to consul\<newline>''"
proof -
  have a: "getattr (args_restore False) ''file'' = Inr PNone"
    by (simp add: args_restore_def getattr_def)
  have b: "read_all PNone world_cut = (Inr sample_text, world_cut)"
    by (simp add: read_all_def world_cut_def world0_def)
  have c: "getattr (args_restore False) ''no_replace'' = Inr (PBool False)"
    by (simp add: args_restore_def getattr_def)
  have d: "up world_cut = Some 1"
    by (simp add: world_cut_def world0_def)
  have e: "1 < length sample_records"
    by (simp add: sample_records_def)
  from kv_restore_cut_short [OF a b loads_sample c d e, of True]
  show ?thesis
    by (simp add: sample_records_def restore_request_def restore_write_def restored_value_def
        store_set_record_def store_write_def world_cut_def world0_def error_line_def)
qed

subsection \<open>Connection failures\<close>





















































subsection \<open>ls\<close>

lemma mkdir_foo:
  "kv_mkdir py3 [(''path'', PStr ''foo'')] world0 =
     (Inr (), world0\<lparr>store := [(''foo/'', PList [], PNone)],
                     trace := [(KvSet (PStr ''foo/'') PNone, True)]\<rparr>)"
  by (simp add: kv_mkdir_general except_connection_def client_set_def bind_def send_result
      lift_def world0_def store_write_def)

text \<open>
  C7. The claim: for every store state, \<^verbatim>\<open>ls\<close> prints one line per key, and with the long
  flag each line shows the length of the value of the key. At the store that
  \<^verbatim>\<open>mkdir foo\<close> leaves, whose one key \<^verbatim>\<open>foo/\<close> has no value, \<^verbatim>\<open>ls\<close> with the long flag
  ends with the \<^verbatim>\<open>TypeError\<close> of \<^verbatim>\<open>len(None)\<close> and has printed nothing.
\<close>

theorem kv_ls_long_absent_value:
  "store (snd (kv_mkdir py3 [(''path'', PStr ''foo'')] world0)) = [(''foo/'', PList [], PNone)] \<and>
   fst (kv_ls py3 [(''long'', PBool True)] (snd (kv_mkdir py3 [(''path'', PStr ''foo'')] world0)))
     = Inl TypeError \<and>
   stdout (snd (kv_ls py3 [(''long'', PBool True)]
                  (snd (kv_mkdir py3 [(''path'', PStr ''foo'')] world0)))) = []"
  unfolding mkdir_foo
  by (simp add: kv_ls_def except_connection_def client_keys_def bind_def send_result
      ls_line_def getattr_def lift_def client_getitem_def world0_def)

subsection \<open>The round trip of backup and restore\<close>

lemma of_char_dquote: "of_char dquote = (34::nat)"
  by (simp add: dquote_def)

lemma of_char_backslash: "of_char backslash = (92::nat)"
  by (simp add: backslash_def)

lemma char_eq_iff_nat: "(c = d) = ((of_char c :: nat) = of_char d)"
  by auto

lemma hex_val_hex_char: "d < 16 \<Longrightarrow> hex_val (hex_char d) = Some d"
  by (simp add: hex_val_def hex_char_def Let_def)

lemma hex_val_zero: "hex_val CHR ''0'' = Some 0"
  by (simp add: hex_val_def)

lemma char_of_hex_split: "char_of (16 * (of_char c div 16) + of_char c mod 16 :: nat) = c"
  by simp

lemma cons_chars_Inr: "cons_chars c (Inr (s, rest)) = Inr (c # s, rest)"
  by (simp add: cons_chars_def)

lemma json_chars_escape:
  assumes "json_chars tail = Inr (s, rest)"
  shows "json_chars (json_escape_char c @ tail) = Inr (c # s, rest)"
proof -
  have d: "(of_char c :: nat) div 16 < 16"
    by (rule less_mult_imp_div_less) simp
  show ?thesis
    using assms d
    by (simp add: json_escape_char_def Let_def char_eq_iff_nat of_char_dquote of_char_backslash
        json_unescape_def cons_chars_Inr hex_val_hex_char hex_val_zero)
qed

lemma json_chars_string:
  "json_chars (concat (map json_escape_char s) @ dquote # rest) = Inr (s, rest)"
proof (induction s)
  case Nil
  show ?case by simp
next
  case (Cons c s)
  from json_chars_escape [OF Cons.IH, of c] show ?case by simp
qed

lemma of_char_digit: "d < 10 \<Longrightarrow> (of_char (digit_char d) :: nat) = 48 + d"
  by (simp add: digit_char_def)

lemma is_digit_digit_char: "d < 10 \<Longrightarrow> is_digit (digit_char d)"
  by (simp add: is_digit_def of_char_digit)

lemma nat_digits_not_Nil: "nat_digits n \<noteq> []"
  by (subst nat_digits.simps) simp

lemma nat_digits_all: "c \<in> set (nat_digits n) \<Longrightarrow> is_digit c"
proof (induction n arbitrary: c rule: nat_digits.induct)
  case (1 n)
  show ?case
  proof (cases "n < 10")
    case True
    with "1.prems" show ?thesis
      by (subst (asm) nat_digits.simps) (simp add: is_digit_digit_char)
  next
    case False
    with "1.prems" have "c \<in> set (nat_digits (n div 10)) \<or> c = digit_char (n mod 10)"
      by (subst (asm) nat_digits.simps) auto
    with "1.IH" [OF False] show ?thesis
      by (auto simp: is_digit_digit_char)
  qed
qed

lemma digits_nat_snoc: "digits_nat (ds @ [d]) = 10 * digits_nat ds + (of_char d - 48)"
  by (simp add: digits_nat_def)

lemma digits_nat_digits: "digits_nat (nat_digits n) = n"
proof (induction n rule: nat_digits.induct)
  case (1 n)
  show ?case
  proof (cases "n < 10")
    case True
    then show ?thesis
      by (subst nat_digits.simps) (simp add: digits_nat_def of_char_digit)
  next
    case False
    with "1.IH" show ?thesis
      by (subst nat_digits.simps) (simp add: digits_nat_snoc of_char_digit)
  qed
qed

lemma nat_digits_zero: "nat_digits 0 = ''0''"
  by code_simp

lemma hd_nat_digits_zero: "hd (nat_digits n) = CHR ''0'' \<Longrightarrow> n = 0"
proof (induction n rule: nat_digits.induct)
  case (1 n)
  show ?case
  proof (cases "n < 10")
    case True
    with "1.prems" have "(of_char (digit_char n) :: nat) = of_char CHR ''0''"
      by (subst (asm) nat_digits.simps) simp
    with True show ?thesis by (simp add: of_char_digit)
  next
    case False
    with "1.prems" have "hd (nat_digits (n div 10)) = CHR ''0''"
      by (subst (asm) nat_digits.simps) (simp add: nat_digits_not_Nil)
    with "1.IH" [OF False] have "n div 10 = 0" by simp
    with False show ?thesis by simp
  qed
qed

lemma is_digit_not_ws: "is_ws c \<Longrightarrow> \<not> is_digit c"
  by (auto simp: is_ws_def is_digit_def)

lemma delimited_head:
  assumes "delimited rest"
  shows "rest = [] \<or> (\<exists>c r. rest = c # r \<and> \<not> is_digit c \<and> c \<noteq> CHR ''.'' \<and> c \<noteq> CHR ''e''
            \<and> c \<noteq> CHR ''E'')"
proof (cases rest)
  case Nil
  then show ?thesis by simp
next
  case (Cons c r)
  with assms have "c = CHR '','' \<or> c = CHR '']'' \<or> is_ws c"
    by (simp add: delimited_def)
  then have "\<not> is_digit c \<and> c \<noteq> CHR ''.'' \<and> c \<noteq> CHR ''e'' \<and> c \<noteq> CHR ''E''"
    by (auto simp: is_ws_def is_digit_def)
  with Cons show ?thesis by simp
qed

lemma span_digits:
  assumes "\<And>c. c \<in> set ds \<Longrightarrow> is_digit c"
    and "rest = [] \<or> (\<exists>c r. rest = c # r \<and> \<not> is_digit c)"
  shows "takeWhile is_digit (ds @ rest) = ds" and "dropWhile is_digit (ds @ rest) = rest"
proof -
  from assms(2) have t: "takeWhile is_digit rest = []" and d: "dropWhile is_digit rest = rest"
    by auto
  show "takeWhile is_digit (ds @ rest) = ds"
    using assms(1) t by (simp add: takeWhile_append2)
  show "dropWhile is_digit (ds @ rest) = rest"
    using assms(1) d by (simp add: dropWhile_append2)
qed

lemma no_fraction:
  assumes "rest = [] \<or> (\<exists>c r. rest = c # r \<and> \<not> is_digit c \<and> c \<noteq> CHR ''.'' \<and> c \<noteq> CHR ''e''
            \<and> c \<noteq> CHR ''E'')"
  shows "(case rest of p # d # x \<Rightarrow> p = CHR ''.'' \<and> is_digit d | _ \<Rightarrow> False) = False"
    and "(case rest of
            e # d # r \<Rightarrow>
              (e = CHR ''e'' \<or> e = CHR ''E'') \<and>
              (is_digit d \<or>
               ((d = CHR ''+'' \<or> d = CHR ''-'') \<and>
                (case r of d' # x \<Rightarrow> is_digit d' | [] \<Rightarrow> False)))
          | _ \<Rightarrow> False) = False"
  using assms by (auto split: list.splits)

lemma json_number_digits:
  assumes del: "delimited rest"
    and ds: "ds = nat_digits n"
  shows "json_number (ds @ rest) = Inr (PInt (int n), rest)"
    and "json_number (CHR ''-'' # ds @ rest) = Inr (PInt (- int n), rest)"
proof -
  have "ds \<noteq> []"
    using nat_digits_not_Nil [of n] ds by simp
  then obtain c cs where cc: "ds = c # cs"
    by (cases ds) auto
  have dig: "\<And>x. x \<in> set ds \<Longrightarrow> is_digit x"
    using nat_digits_all ds by blast
  then have c: "is_digit c" and cs: "\<And>x. x \<in> set cs \<Longrightarrow> is_digit x"
    by (simp_all add: cc)
  from c have minus: "c \<noteq> CHR ''-''"
    by (auto simp: is_digit_def)
  note h = delimited_head [OF del]
  then have h': "rest = [] \<or> (\<exists>c r. rest = c # r \<and> \<not> is_digit c)" by blast
  note nf = no_fraction [OF h]
  have val: "digits_nat (c # cs) = n"
    using digits_nat_digits [of n] ds cc by simp
  show "json_number (ds @ rest) = Inr (PInt (int n), rest)"
  proof (cases "c = CHR ''0''")
    case True
    with cc ds have "n = 0" using hd_nat_digits_zero [of n] by simp
    with ds cc have "cs = []" by (simp add: nat_digits_zero)
    with True cc minus c nf val show ?thesis
      by (simp add: json_number_def Let_def)
  next
    case False
    with cc minus c nf val span_digits [OF cs h'] show ?thesis
      by (simp add: json_number_def Let_def)
  qed
  show "json_number (CHR ''-'' # ds @ rest) = Inr (PInt (- int n), rest)"
  proof (cases "c = CHR ''0''")
    case True
    with cc ds have "n = 0" using hd_nat_digits_zero [of n] by simp
    with ds cc have "cs = []" by (simp add: nat_digits_zero)
    with True cc minus c nf val show ?thesis
      by (simp add: json_number_def Let_def)
  next
    case False
    with cc minus c nf val span_digits [OF cs h'] show ?thesis
      by (simp add: json_number_def Let_def)
  qed
qed

lemma json_number_int:
  assumes "delimited rest"
  shows "json_number (int_str i @ rest) = Inr (PInt i, rest)"
proof (cases "i < 0")
  case True
  with json_number_digits(2) [OF assms refl, of "nat (- i)"] show ?thesis
    by (simp add: int_str_def)
next
  case False
  with json_number_digits(1) [OF assms refl, of "nat i"] show ?thesis
    by (simp add: int_str_def)
qed

lemma is_prefix_simps:
  "is_prefix [] s = True"
  "is_prefix (p # ps) [] = False"
  "is_prefix (p # ps) (c # cs) = (p = c \<and> is_prefix ps cs)"
  by (auto simp: is_prefix_def)

lemma not_ws_simps:
  "\<not> is_ws dquote" "\<not> is_ws CHR ''[''" "\<not> is_ws CHR '']''" "\<not> is_ws CHR '',''"
  "\<not> is_ws CHR ''n''" "\<not> is_ws CHR ''t''" "\<not> is_ws CHR ''f''" "\<not> is_ws CHR ''-''"
  "is_ws CHR '' ''"
  by (simp_all add: is_ws_def dquote_def)

lemma skip_ws_Cons: "\<not> is_ws c \<Longrightarrow> skip_ws (c # cs) = c # cs"
  by (simp add: skip_ws_def)

lemma skip_ws_space: "skip_ws (CHR '' '' # cs) = skip_ws cs"
  by (simp add: skip_ws_def is_ws_def)

lemma int_str_head:
  "\<exists>c r. int_str i = c # r \<and> (c = CHR ''-'' \<or> is_digit c)"
proof (cases "i < 0")
  case True
  then show ?thesis by (simp add: int_str_def)
next
  case False
  have "nat_digits (nat i) \<noteq> []" by (rule nat_digits_not_Nil)
  then obtain c r where cr: "nat_digits (nat i) = c # r" by (cases "nat_digits (nat i)") auto
  then have "is_digit c" using nat_digits_all [of c "nat i"] by simp
  with cr False show ?thesis by (simp add: int_str_def)
qed

lemma starts_value_Cons: "starts_value (c # r) = (\<not> is_ws c \<and> c \<noteq> CHR '']'')"
  by (simp add: starts_value_def)

lemma starts_value_int: "starts_value (int_str i)"
proof -
  from int_str_head [of i] obtain c r where cr: "int_str i = c # r"
    and c: "c = CHR ''-'' \<or> is_digit c" by blast
  from c have "\<not> is_ws c \<and> c \<noteq> CHR '']''"
    by (auto simp: is_ws_def is_digit_def)
  then show ?thesis by (simp add: cr starts_value_Cons)
qed

lemma starts_value_string: "starts_value (json_string s)"
  by (simp add: json_string_def starts_value_Cons is_ws_def dquote_def)

lemma starts_value_dumps:
  assumes "json_dumps py3 v = Inr t"
  shows "starts_value t"
proof (cases v)
  case PNone
  with assms have "t = ''null''" by simp
  then show ?thesis by (simp add: starts_value_Cons is_ws_def)
next
  case (PBool b)
  with assms have "t = ''true'' \<or> t = ''false''" by (cases b) auto
  then show ?thesis by (auto simp: starts_value_Cons is_ws_def)
next
  case (PInt i)
  with assms have "t = int_str i" by simp
  then show ?thesis by (simp add: starts_value_int)
next
  case (PStr s)
  with assms have "t = json_string s" by simp
  then show ?thesis by (simp add: starts_value_string)
next
  case (PBytes b)
  with assms obtain s where "t = json_string s"
    by (cases py3; cases "utf8_decode b") auto
  then show ?thesis by (simp add: starts_value_string)
next
  case (PList xs)
  with assms obtain ts where "t = CHR ''['' # join_comma ts @ '']''"
    by (cases "json_dumps_items py3 xs") auto
  then show ?thesis by (simp add: starts_value_Cons is_ws_def)
qed

lemma join_comma_Cons:
  "join_comma (s # ss) = (if ss = [] then s else s @ '', '' @ join_comma ss)"
  by (cases ss) simp_all

lemma dumps_items_length:
  "json_dumps_items py3 xs = Inr ts \<Longrightarrow> length ts = length xs"
  by (induction xs arbitrary: ts) (auto split: sum.splits)

lemma json_value_atom:
  assumes "delimited rest"
  shows "json_value (Suc n) (''null'' @ rest) = Inr (PNone, rest)"
    and "json_value (Suc n) (''true'' @ rest) = Inr (PBool True, rest)"
    and "json_value (Suc n) (''false'' @ rest) = Inr (PBool False, rest)"
    and "json_value (Suc n) (json_string s @ rest) = Inr (PStr s, rest)"
    and "json_value (Suc n) (int_str i @ rest) = Inr (PInt i, rest)"
proof -
  show "json_value (Suc n) (''null'' @ rest) = Inr (PNone, rest)"
    by (simp add: is_prefix_simps dquote_def)
  show "json_value (Suc n) (''true'' @ rest) = Inr (PBool True, rest)"
    by (simp add: is_prefix_simps dquote_def)
  show "json_value (Suc n) (''false'' @ rest) = Inr (PBool False, rest)"
    by (simp add: is_prefix_simps dquote_def)
  show "json_value (Suc n) (json_string s @ rest) = Inr (PStr s, rest)"
    by (simp add: json_string_def json_chars_string)
  from int_str_head [of i] obtain c r where cr: "int_str i = c # r"
    and c: "c = CHR ''-'' \<or> is_digit c" by blast
  from c have "c \<noteq> dquote" "c \<noteq> CHR ''{''" "c \<noteq> CHR ''[''" "c \<noteq> CHR ''n''" "c \<noteq> CHR ''t''"
    "c \<noteq> CHR ''f''"
    by (auto simp: is_digit_def dquote_def)
  with json_number_int [OF assms, of i]
  show "json_value (Suc n) (int_str i @ rest) = Inr (PInt i, rest)"
    by (simp add: cr is_prefix_simps)
qed

lemma delimited_simps: "delimited (CHR '']'' # r)" "delimited (CHR '','' # r)" "delimited ''\<newline>''"
  by (simp_all add: delimited_def is_ws_def)

lemma join_comma_head: "\<exists>r'. join_comma ((c # r) # ss) = c # r'"
  by (cases ss) simp_all

lemma json_roundtrip_rec:
  "(\<forall>t n rest. json_dumps py3 v = Inr t \<longrightarrow> jsonable v \<longrightarrow> fuel_of v \<le> n \<longrightarrow> delimited rest \<longrightarrow>
       json_value n (t @ rest) = Inr (v, rest))"
  "(\<forall>ts n rest. json_dumps_items py3 xs = Inr ts \<longrightarrow> jsonable_items xs \<longrightarrow> xs \<noteq> [] \<longrightarrow>
       fuel_of_items xs \<le> n \<longrightarrow>
       json_items n (join_comma ts @ CHR '']'' # rest) = Inr (xs, rest))"
proof (induction v and xs rule: fuel_of_fuel_of_items.induct)
  case (1 xs)
  show ?case
  proof (intro allI impI)
    fix t n rest
    assume d: "json_dumps py3 (PList xs) = Inr t" and j: "jsonable (PList xs)"
      and f: "fuel_of (PList xs) \<le> n" and del: "delimited rest"
    from d obtain ts where ts: "json_dumps_items py3 xs = Inr ts"
      and t: "t = ''['' @ join_comma ts @ '']''"
      by (auto split: sum.splits)
    from f obtain m where n: "n = Suc m" and m: "fuel_of_items xs \<le> m"
      by (cases n) auto
    show "json_value n (t @ rest) = Inr (PList xs, rest)"
    proof (cases xs)
      case Nil
      with ts have "ts = []" by simp
      then show ?thesis
        by (simp add: t n Nil dquote_def skip_ws_Cons not_ws_simps)
    next
      case (Cons y ys)
      with ts obtain s ss where sss: "ts = s # ss" and s: "json_dumps py3 y = Inr s"
        by (auto split: sum.splits)
      from starts_value_dumps [OF s] obtain c r where cr: "s = c # r"
        and c: "\<not> is_ws c" "c \<noteq> CHR '']''"
        by (cases s) (simp_all add: starts_value_def)
      obtain r' where jc: "join_comma ts = c # r'"
        using join_comma_head [of c r ss] by (auto simp: sss cr)
      from "1.IH" ts j m Cons
      have "json_items m (join_comma ts @ CHR '']'' # rest) = Inr (xs, rest)"
        by simp
      then show ?thesis
        using c by (simp add: t n jc dquote_def skip_ws_Cons)
    qed
  qed
next
  case 2
  show ?case
  proof (intro allI impI)
    fix t n rest
    assume d: "json_dumps py3 PNone = Inr t" and f: "fuel_of PNone \<le> n" and del: "delimited rest"
    from d have t: "t = ''null''" by simp
    from f obtain m where n: "n = Suc m" by (cases n) auto
    show "json_value n (t @ rest) = Inr (PNone, rest)"
      unfolding t n by (rule json_value_atom(1) [OF del])
  qed
next
  case (3 b)
  show ?case
  proof (intro allI impI)
    fix t n rest
    assume d: "json_dumps py3 (PBool b) = Inr t" and f: "fuel_of (PBool b) \<le> n"
      and del: "delimited rest"
    from f obtain m where n: "n = Suc m" by (cases n) auto
    show "json_value n (t @ rest) = Inr (PBool b, rest)"
    proof (cases b)
      case True
      then have b: "b = True" by simp
      with d have t: "t = ''true''" by simp
      show ?thesis unfolding t n b by (rule json_value_atom(2) [OF del])
    next
      case False
      then have b: "b = False" by simp
      with d have t: "t = ''false''" by simp
      show ?thesis unfolding t n b by (rule json_value_atom(3) [OF del])
    qed
  qed
next
  case (4 i)
  show ?case
  proof (intro allI impI)
    fix t n rest
    assume d: "json_dumps py3 (PInt i) = Inr t" and f: "fuel_of (PInt i) \<le> n"
      and del: "delimited rest"
    from d have t: "t = int_str i" by simp
    from f obtain m where n: "n = Suc m" by (cases n) auto
    show "json_value n (t @ rest) = Inr (PInt i, rest)"
      unfolding t n by (rule json_value_atom(5) [OF del])
  qed
next
  case (5 s)
  show ?case
  proof (intro allI impI)
    fix t n rest
    assume d: "json_dumps py3 (PStr s) = Inr t" and f: "fuel_of (PStr s) \<le> n"
      and del: "delimited rest"
    from d have t: "t = json_string s" by simp
    from f obtain m where n: "n = Suc m" by (cases n) auto
    show "json_value n (t @ rest) = Inr (PStr s, rest)"
      unfolding t n by (rule json_value_atom(4) [OF del])
  qed
next
  case (6 s)
  show ?case by simp
next
  case 7
  show ?case by simp
next
  case (8 x xs)
  show ?case
  proof (intro allI impI)
    fix ts n rest
    assume d: "json_dumps_items py3 (x # xs) = Inr ts" and j: "jsonable_items (x # xs)"
      and f: "fuel_of_items (x # xs) \<le> n"
    from d obtain s ss where ts: "ts = s # ss" and s: "json_dumps py3 x = Inr s"
      and ss: "json_dumps_items py3 xs = Inr ss"
      by (auto split: sum.splits)
    from f obtain m where n: "n = Suc m" and mx: "fuel_of x \<le> m" and mxs: "fuel_of_items xs \<le> m"
      by (cases n) auto
    from j have jx: "jsonable x" and jxs: "jsonable_items xs" by simp_all
    show "json_items n (join_comma ts @ CHR '']'' # rest) = Inr (x # xs, rest)"
    proof (cases xs)
      case Nil
      with ss have "ss = []" by simp
      moreover from "8.IH"(1) s jx mx
      have "json_value m (s @ CHR '']'' # rest) = Inr (x, CHR '']'' # rest)"
        by (simp add: delimited_simps)
      ultimately show ?thesis
        by (simp add: n ts Nil skip_ws_Cons not_ws_simps)
    next
      case (Cons y ys)
      with ss obtain u us where us: "ss = u # us" and u: "json_dumps py3 y = Inr u"
        by (auto split: sum.splits)
      from starts_value_dumps [OF u] obtain c r where cr: "u = c # r" and c: "\<not> is_ws c"
        by (cases u) (simp_all add: starts_value_def)
      obtain r' where jc: "join_comma ss = c # r'"
        using join_comma_head [of c r us] by (auto simp: us cr)
      from "8.IH"(1) s jx mx
      have one: "json_value m (s @ CHR '','' # CHR '' '' # join_comma ss @ CHR '']'' # rest)
                   = Inr (x, CHR '','' # CHR '' '' # join_comma ss @ CHR '']'' # rest)"
        by (simp add: delimited_simps)
      from "8.IH"(2) ss jxs mxs Cons
      have more: "json_items m (join_comma ss @ CHR '']'' # rest) = Inr (xs, rest)"
        by simp
      have sk: "skip_ws (CHR '' '' # join_comma ss @ CHR '']'' # rest)
                  = join_comma ss @ CHR '']'' # rest"
        using c by (simp add: skip_ws_space jc skip_ws_Cons)
      from one more sk show ?thesis
        by (simp add: n ts us join_comma_Cons skip_ws_Cons not_ws_simps)
    qed
  qed
qed

lemma json_string_length: "2 \<le> length (json_string s)"
  by (simp add: json_string_def)

lemma int_str_length: "1 \<le> length (int_str i)"
proof -
  from int_str_head [of i] obtain c r where "int_str i = c # r" by blast
  then show ?thesis by simp
qed

lemma join_comma_length:
  "length (join_comma (s # ss)) = length s + (if ss = [] then 0 else 2 + length (join_comma ss))"
  by (cases ss) simp_all

lemma fuel_bound_rec:
  "(\<forall>t. json_dumps py3 v = Inr t \<longrightarrow> fuel_of v \<le> length t)"
  "(\<forall>ts. json_dumps_items py3 xs = Inr ts \<longrightarrow> fuel_of_items xs \<le> length (join_comma ts) + 1)"
proof (induction v and xs rule: fuel_of_fuel_of_items.induct)
  case (1 xs)
  show ?case
  proof (intro allI impI)
    fix t
    assume "json_dumps py3 (PList xs) = Inr t"
    then obtain ts where ts: "json_dumps_items py3 xs = Inr ts"
      and t: "t = ''['' @ join_comma ts @ '']''"
      by (auto split: sum.splits)
    from "1.IH" ts have "fuel_of_items xs \<le> length (join_comma ts) + 1" by simp
    then show "fuel_of (PList xs) \<le> length t" by (simp add: t)
  qed
next
  case 2
  show ?case by auto
next
  case (3 b)
  show ?case by auto
next
  case (4 i)
  show ?case using int_str_length [of i] by auto
next
  case (5 s)
  show ?case using json_string_length [of s] by auto
next
  case (6 s)
  show ?case
  proof (intro allI impI)
    fix t
    assume "json_dumps py3 (PBytes s) = Inr t"
    then obtain u where "t = json_string u"
      by (cases py3; cases "utf8_decode s") auto
    with json_string_length [of u] show "fuel_of (PBytes s) \<le> length t" by simp
  qed
next
  case 7
  show ?case by simp
next
  case (8 x xs)
  show ?case
  proof (intro allI impI)
    fix ts
    assume "json_dumps_items py3 (x # xs) = Inr ts"
    then obtain s ss where ts: "ts = s # ss" and s: "json_dumps py3 x = Inr s"
      and ss: "json_dumps_items py3 xs = Inr ss"
      by (auto split: sum.splits)
    from "8.IH"(1) s have a: "fuel_of x \<le> length s" by simp
    from "8.IH"(2) ss have b: "fuel_of_items xs \<le> length (join_comma ss) + 1" by simp
    show "fuel_of_items (x # xs) \<le> length (join_comma ts) + 1"
    proof (cases xs)
      case Nil
      with ss have "ss = []" by simp
      with a Nil show ?thesis by (simp add: ts)
    next
      case (Cons y ys)
      with ss have "ss \<noteq> []" by (auto split: sum.splits)
      with a b show ?thesis by (simp add: ts join_comma_length)
    qed
  qed
qed

lemma json_loads_dumps:
  assumes d: "json_dumps py3 v = Inr t" and j: "jsonable v"
  shows "json_loads (t @ ''\<newline>'') = Inr v"
proof -
  from starts_value_dumps [OF d] obtain c r where cr: "t = c # r" and c: "\<not> is_ws c"
    by (cases t) (simp_all add: starts_value_def)
  then have sk: "skip_ws (t @ ''\<newline>'') = t @ ''\<newline>''"
    by (simp add: skip_ws_Cons)
  let ?s = "t @ ''\<newline>''"
  from fuel_bound_rec(1) [of py3 v] d have "fuel_of v \<le> Suc (length ?s + length ?s)"
    by auto
  with json_roundtrip_rec(1) [of py3 v] d j
  have "json_value (Suc (length ?s + length ?s)) ?s = Inr (v, ''\<newline>'')"
    using delimited_simps(3) by blast
  then show ?thesis
    unfolding json_loads_def sk by (simp add: skip_ws_def is_ws_def)
qed

lemma jsonable_dumps_rec:
  "jsonable v \<longrightarrow> (\<exists>t. json_dumps py3 v = Inr t)"
  "jsonable_items xs \<longrightarrow> (\<exists>ts. json_dumps_items py3 xs = Inr ts)"
  by (induction v and xs rule: fuel_of_fuel_of_items.induct) auto

lemma valid_value_cases:
  assumes "valid_value py3 v"
  shows "json_dumps py3 (decoded_value v) = json_dumps py3 v"
    and "jsonable (decoded_value v)"
    and "restored_value py3 (decoded_value v) = v"
proof -
  show "json_dumps py3 (decoded_value v) = json_dumps py3 v"
    using assms
    by (cases v) (auto simp: valid_value_def decoded_value_def utf8_ok_def split: sum.splits)
  show "jsonable (decoded_value v)"
    using assms
    by (cases v) (auto simp: valid_value_def decoded_value_def utf8_ok_def split: sum.splits)
  show "restored_value py3 (decoded_value v) = v"
    using assms
    by (cases v)
       (auto simp: valid_value_def decoded_value_def utf8_ok_def restored_value_def
         split: sum.splits)
qed

lemma valid_record_row:
  assumes "valid_record py3 r"
  shows "json_dumps py3 (row_of (decoded_record r)) = json_dumps py3 (row_of r)"
    and "jsonable (row_of (decoded_record r))"
    and "restore_request py3 rep (decoded_record r)
           = (case r of (p, f, v) \<Rightarrow> KvSetRecord (PStr p) f v rep)"
    and "restore_write py3 rep st (decoded_record r)
           = (case r of (p, f, v) \<Rightarrow> store_set_record p f v rep st)"
proof -
  obtain p f v where r: "r = (p, f, v)" by (cases r) auto
  from assms have f: "jsonable f" and v: "valid_value py3 v"
    by (simp_all add: r valid_record_def)
  note vc = valid_value_cases [OF v]
  show "json_dumps py3 (row_of (decoded_record r)) = json_dumps py3 (row_of r)"
    by (simp add: r row_of_def decoded_record_def vc(1) cong: sum.case_cong)
  show "jsonable (row_of (decoded_record r))"
    by (simp add: r row_of_def decoded_record_def vc(2) f)
  show "restore_request py3 rep (decoded_record r)
           = (case r of (p, f, v) \<Rightarrow> KvSetRecord (PStr p) f v rep)"
    by (simp add: r decoded_record_def restore_request_def vc(3))
  show "restore_write py3 rep st (decoded_record r)
           = (case r of (p, f, v) \<Rightarrow> store_set_record p f v rep st)"
    by (simp add: r decoded_record_def restore_write_def vc(3))
qed

lemma valid_records_items:
  assumes "list_all (valid_record py3) rs"
  shows "json_dumps_items py3 (map row_of (map decoded_record rs))
           = json_dumps_items py3 (map row_of rs) \<and>
         jsonable_items (map row_of (map decoded_record rs))"
  using assms
proof (induction rs)
  case Nil
  show ?case by simp
next
  case (Cons r rs)
  from Cons.prems have r: "valid_record py3 r" and rs: "list_all (valid_record py3) rs"
    by simp_all
  note row = valid_record_row(1,2) [OF r]
  from Cons.IH [OF rs] row show ?case
    by (simp cong: sum.case_cong)
qed

lemma valid_records_value:
  assumes "list_all (valid_record py3) rs"
  shows "json_dumps py3 (records_value (map decoded_record rs)) = json_dumps py3 (records_value rs)"
    and "jsonable (records_value (map decoded_record rs))"
  using valid_records_items [OF assms] by (simp_all add: records_value_def cong: sum.case_cong)

lemma valid_records_requests:
  assumes "list_all (valid_record py3) rs"
  shows "map (\<lambda>r. (restore_request py3 rep r, True)) (map decoded_record rs)
           = map (\<lambda>r. (case r of (p, f, v) \<Rightarrow> KvSetRecord (PStr p) f v rep, True)) rs"
  using assms
proof (induction rs)
  case Nil
  show ?case by simp
next
  case (Cons r rs)
  from Cons.prems have r: "valid_record py3 r" and rs: "list_all (valid_record py3) rs"
    by simp_all
  from Cons.IH [OF rs] valid_record_row(3) [OF r, of rep] show ?case by simp
qed

lemma valid_records_writes:
  assumes "list_all (valid_record py3) rs"
  shows "foldl (restore_write py3 rep) st (map decoded_record rs)
           = foldl (\<lambda>st r. case r of (p, f, v) \<Rightarrow> store_set_record p f v rep st) st rs"
  using assms
proof (induction rs arbitrary: st)
  case Nil
  show ?case by simp
next
  case (Cons r rs)
  from Cons.prems have r: "valid_record py3 r" and rs: "list_all (valid_record py3) rs"
    by simp_all
  from Cons.IH [OF rs] valid_record_row(4) [OF r, of rep st] show ?case by simp
qed

lemma fresh_writes:
  "distinct (map fst st @ map fst rs) \<Longrightarrow>
     foldl (\<lambda>st r. case r of (p, f, v) \<Rightarrow> store_set_record p f v rep st) st rs = st @ rs"
proof (induction rs arbitrary: st)
  case Nil
  show ?case by simp
next
  case (Cons r rs)
  obtain p f v where r: "r = (p, f, v)" by (cases r) auto
  from Cons.prems have "p \<notin> fst ` set st" by (auto simp: r)
  then have one: "store_set_record p f v rep st = st @ [(p, f, v)]"
    by (simp add: store_set_record_def store_write_def)
  from Cons.prems have "distinct (map fst (st @ [(p, f, v)]) @ map fst rs)"
    by (auto simp: r)
  from Cons.IH [OF this] show ?case by (simp add: r one)
qed

lemma kv_backup_stdout:
  assumes "getattr bargs ''file'' = Inr bfile"
    and "\<not> py_truth bfile"
    and "answers wb 1"
    and "json_dumps py3 (records_value (store wb)) = Inr t"
  shows "kv_backup py3 bargs wb =
           (Inr (), wb\<lparr>trace := trace wb @ [(KvRecords, True)],
                      up := map_option (\<lambda>n. n - 1) (up wb),
                      stdout := stdout wb @ t @ ''\<newline>''\<rparr>)"
proof -
  from assms(3) have up: "up wb \<noteq> Some 0"
    by (auto simp: answers_def)
  with assms(1,2,4) show ?thesis
    by (simp add: kv_backup_def bind_lift_Inr open_write_def bind_return except_connection_def
        client_records_def bind_def send_result lift_def write_stdout_def)
qed

text \<open>
  C8. For every valid set of records in the store: a backup writes their serialization,
  and a restore that reads this text, over a transport that answers, makes one write per
  record, with exactly the path, the flags and the value of the record, in the order of
  the backup; restored into an empty store, records with distinct paths give a store
  that holds exactly these records again.
\<close>

theorem backup_restore_roundtrip:
  assumes "list_all (valid_record py3) (store wb)"
    and "getattr bargs ''file'' = Inr bfile"
    and "\<not> py_truth bfile"
    and "answers wb 1"
    and "stdout wb = []"
    and "getattr rargs ''file'' = Inr rfile"
    and "read_all rfile wr = (Inr (stdout (snd (kv_backup py3 bargs wb))), wr)"
    and "getattr rargs ''no_replace'' = Inr nr"
    and "answers wr (length (store wb))"
  shows "fst (kv_backup py3 bargs wb) = Inr () \<and>
         fst (kv_restore py3 rargs wr) = Inr () \<and>
         trace (snd (kv_restore py3 rargs wr)) =
           trace wr @
           map (\<lambda>r. (case r of (p, f, v) \<Rightarrow> KvSetRecord (PStr p) f v (\<not> py_truth nr), True))
             (store wb) \<and>
         (store wr = [] \<and> distinct (map fst (store wb)) \<longrightarrow>
            store (snd (kv_restore py3 rargs wr)) = store wb)"
proof -
  let ?rs = "map decoded_record (store wb)"
  note vv = valid_records_value [OF assms(1)]
  from jsonable_dumps_rec(1) [of "records_value ?rs" py3] vv(2)
  obtain t where t: "json_dumps py3 (records_value ?rs) = Inr t" by blast
  then have t': "json_dumps py3 (records_value (store wb)) = Inr t"
    by (simp add: vv(1))
  note backup = kv_backup_stdout [OF assms(2,3,4) t']
  have out: "stdout (snd (kv_backup py3 bargs wb)) = t @ ''\<newline>''"
    by (simp add: backup assms(5))
  have loads: "json_loads (t @ ''\<newline>'') = Inr (PList (map row_of ?rs))"
    using json_loads_dumps [OF t vv(2)] by (simp add: records_value_def)
  have rd: "read_all rfile wr = (Inr (t @ ''\<newline>''), wr)"
    using assms(7) by (simp add: out)
  have ans: "answers wr (length ?rs)"
    using assms(9) by simp
  note run = kv_restore_answered [OF assms(6) rd loads assms(8) ans, of py3]
  have a: "fst (kv_backup py3 bargs wb) = Inr ()" by (simp add: backup)
  have b: "fst (kv_restore py3 rargs wr) = Inr ()" using run by simp
  have c: "trace (snd (kv_restore py3 rargs wr)) =
           trace wr @
           map (\<lambda>r. (case r of (p, f, v) \<Rightarrow> KvSetRecord (PStr p) f v (\<not> py_truth nr), True))
             (store wb)"
    using run valid_records_requests [OF assms(1), of "\<not> py_truth nr"] by simp
  have d: "store wr = [] \<and> distinct (map fst (store wb)) \<longrightarrow>
            store (snd (kv_restore py3 rargs wr)) = store wb"
  proof
    assume e: "store wr = [] \<and> distinct (map fst (store wb))"
    then have "distinct (map fst (store wr) @ map fst (store wb))" by simp
    from fresh_writes [OF this, of "\<not> py_truth nr"] run
      valid_records_writes [OF assms(1), of "\<not> py_truth nr" "store wr"] e
    show "store (snd (kv_restore py3 rargs wr)) = store wb" by simp
  qed
  from a b c d show ?thesis by blast
qed

lemma sample_valid: "list_all (valid_record True) sample_records"
  by (simp add: sample_records_def valid_record_def valid_value_def)

lemma sample_backup: "stdout (snd (kv_backup True args_backup world_full)) = sample_text"
  by code_simp

theorem backup_restore_roundtrip_witness:
  "stdout (snd (kv_backup True args_backup world_full)) = sample_text \<and>
   fst (kv_restore True (args_restore False) world_in) = Inr () \<and>
   trace (snd (kv_restore True (args_restore False) world_in)) =
     [(KvSetRecord (PStr ''a'') (PInt 0) (PStr ''1'') True, True),
      (KvSetRecord (PStr ''b/c'') (PInt 0) (PStr ''2'') True, True),
      (KvSetRecord (PStr ''d/'') (PInt 7) PNone True, True)] \<and>
   store (snd (kv_restore True (args_restore False) world_in)) = store world_full"
proof -
  have v: "list_all (valid_record True) (store world_full)"
    using sample_valid by (simp add: world_full_def world0_def)
  have a: "getattr args_backup ''file'' = Inr PNone"
    by (simp add: args_backup_def getattr_def)
  have b: "\<not> py_truth PNone" by simp
  have c: "answers world_full 1"
    by (simp add: answers_def world_full_def world0_def)
  have d: "stdout world_full = []"
    by (simp add: world_full_def world0_def)
  have e: "getattr (args_restore False) ''file'' = Inr PNone"
    by (simp add: args_restore_def getattr_def)
  have f: "read_all PNone world_in
             = (Inr (stdout (snd (kv_backup True args_backup world_full))), world_in)"
    unfolding sample_backup by (simp add: read_all_def world_in_def world0_def)
  have g: "getattr (args_restore False) ''no_replace'' = Inr (PBool False)"
    by (simp add: args_restore_def getattr_def)
  have h: "answers world_in (length (store world_full))"
    by (simp add: answers_def world_in_def world0_def)
  have i: "store world_in = [] \<and> distinct (map fst (store world_full))"
    by (simp add: world_in_def world_full_def world0_def sample_records_def)
  from backup_restore_roundtrip [OF v a b c d e f g h] i sample_backup
  show ?thesis
    by (simp add: world_full_def world0_def sample_records_def world_in_def)
qed

subsection \<open>ls on values that have a length\<close>

text \<open>
  Where every stored value has a length (a string, text or bytes) and the transport
  answers, \<^verbatim>\<open>ls\<close> prints one line per key, in the order of the enumeration: the key
  alone, or with the long flag the decimal length that \<^verbatim>\<open>len\<close> gives for the value,
  padded on the left to 14 characters, one space, and the key.
\<close>

lemma ls_line_long:
  assumes "getattr args ''long'' = Inr long"
    and "py_truth long"
    and "map_of (store w) k = Some (f, v)"
    and "py_len v = Inr n"
    and "up w \<noteq> Some 0"
  shows "ls_line py3 args k w =
           (Inr (), w\<lparr>trace := trace w @ [(KvGetItem (PStr k), True)],
                      up := map_option (\<lambda>n. n - 1) (up w),
                      stdout := stdout w @ long_line (store w) k\<rparr>)"
  using assms
  by (simp add: ls_line_def bind_lift_Inr client_getitem_def bind_def send_result lift_def
      print_def write_stdout_def long_line_def value_length_def)

lemma ls_line_short:
  assumes "getattr args ''long'' = Inr long"
    and "\<not> py_truth long"
  shows "ls_line py3 args k w = (Inr (), w\<lparr>stdout := stdout w @ k @ ''\<newline>''\<rparr>)"
  using assms
  by (simp add: ls_line_def bind_lift_Inr print_def write_stdout_def)

lemma ls_loop_long:
  assumes "getattr args ''long'' = Inr long"
    and "py_truth long"
  shows "answers w (length ks) \<Longrightarrow>
         (\<And>k. k \<in> set ks \<Longrightarrow> \<exists>f v n. map_of (store w) k = Some (f, v) \<and> py_len v = Inr n) \<Longrightarrow>
         fst (ls_loop py3 args ks w) = Inr () \<and>
         stdout (snd (ls_loop py3 args ks w)) = stdout w @ concat (map (long_line (store w)) ks)"
proof (induction ks arbitrary: w)
  case Nil
  show ?case by simp
next
  case (Cons k ks)
  from Cons.prems(2) [of k] obtain f v n
    where kv: "map_of (store w) k = Some (f, v)" and len: "py_len v = Inr n"
    by auto
  from Cons.prems(1) have up: "up w \<noteq> Some 0"
    by (auto simp: answers_def)
  let ?w = "w\<lparr>trace := trace w @ [(KvGetItem (PStr k), True)],
                      up := map_option (\<lambda>n. n - 1) (up w),
                      stdout := stdout w @ long_line (store w) k\<rparr>"
  note step = ls_line_long [OF assms kv len up, of py3]
  have a: "answers ?w (length ks)"
    using Cons.prems(1) by (auto simp: answers_def split: option.splits)
  have b: "\<And>k. k \<in> set ks \<Longrightarrow> \<exists>f v n. map_of (store ?w) k = Some (f, v) \<and> py_len v = Inr n"
    using Cons.prems(2) by simp
  from Cons.IH [OF a b] show ?case
    by (simp add: step)
qed

lemma ls_loop_short:
  assumes "getattr args ''long'' = Inr long"
    and "\<not> py_truth long"
  shows "fst (ls_loop py3 args ks w) = Inr () \<and>
         stdout (snd (ls_loop py3 args ks w)) = stdout w @ concat (map (\<lambda>k. k @ ''\<newline>'') ks) \<and>
         trace (snd (ls_loop py3 args ks w)) = trace w"
proof (induction ks arbitrary: w)
  case Nil
  show ?case by simp
next
  case (Cons k ks)
  from Cons.IH [of "w\<lparr>stdout := stdout w @ k @ ''\<newline>''\<rparr>"] show ?case
    by (simp add: ls_line_short [OF assms])
qed

lemma stored_has_length:
  assumes "list_all has_length st" and "k \<in> set (map fst st)"
  shows "\<exists>f v n. map_of st k = Some (f, v) \<and> py_len v = Inr n"
proof -
  from assms(2) obtain fv where m: "map_of st k = Some fv"
    by (cases "map_of st k") (auto simp: map_of_eq_None_iff)
  obtain f v where fv: "fv = (f, v)" by (cases fv) auto
  from m have "(k, fv) \<in> set st" by (rule map_of_SomeD)
  with assms(1) have "has_length (k, fv)" by (auto simp: list_all_iff)
  then obtain n where "py_len v = Inr n"
    by (cases "py_len v") (auto simp: has_length_def fv)
  with m fv show ?thesis by blast
qed

lemma kv_ls_lines:
  assumes "getattr args ''long'' = Inr long"
    and "answers w (Suc (length (store w)))"
    and "py_truth long \<Longrightarrow> list_all has_length (store w)"
  shows "fst (kv_ls py3 args w) = Inr () \<and>
         stdout (snd (kv_ls py3 args w)) =
           stdout w @
           concat (map (\<lambda>k. if py_truth long then long_line (store w) k else k @ ''\<newline>'')
                     (map fst (store w)))"
proof -
  from assms(2) have up: "up w \<noteq> Some 0"
    by (auto simp: answers_def)
  let ?w = "w\<lparr>trace := trace w @ [(KvKeys, True)], up := map_option (\<lambda>n. n - 1) (up w)\<rparr>"
  have keys: "client_keys w = (Inr (map fst (store w)), ?w)"
    using up by (simp add: client_keys_def bind_def send_result)
  have body: "bind client_keys (\<lambda>keys. ls_loop py3 args keys) w
                = ls_loop py3 args (map fst (store w)) ?w"
    by (simp add: bind_def keys)
  show ?thesis
  proof (cases "py_truth long")
    case True
    have a: "answers ?w (length (map fst (store w)))"
      using assms(2) by (auto simp: answers_def split: option.splits)
    have b: "\<And>k. k \<in> set (map fst (store w)) \<Longrightarrow>
               \<exists>f v n. map_of (store ?w) k = Some (f, v) \<and> py_len v = Inr n"
      using stored_has_length [OF assms(3) [OF True]] by simp
    from ls_loop_long [OF assms(1) True a b, of py3] True show ?thesis
      by (auto simp: kv_ls_def except_connection_def body split: prod.splits)
  next
    case False
    from ls_loop_short [OF assms(1) False, of py3 "map fst (store w)" ?w] False show ?thesis
      by (auto simp: kv_ls_def except_connection_def body split: prod.splits)
  qed
qed

lemma long_line_field:
  "length (nat_digits (value_length st k)) \<le> 14 \<Longrightarrow>
     take 14 (long_line st k) = rjust 14 (nat_digits (value_length st k)) \<and>
     length (rjust 14 (nat_digits (value_length st k))) = 14 \<and>
     drop 14 (long_line st k) = '' '' @ k @ ''\<newline>''"
  by (simp add: long_line_def rjust_def)

end
